theory Spec2Isabelle
  imports Main
begin

section \<open>The type lattice (src/types.js)\<close>

text \<open>
  A Type of \<^verbatim>\<open>types.js\<close> is a bare kind string, a plain list of Types (the
  shorthand of a union) or a type object \<^verbatim>\<open>{kind, returns?, params?, elements?, anyOf?}\<close>.
  The kinds are the entries of the frozen \<^verbatim>\<open>TypeKind\<close> table. The entry
  \<^verbatim>\<open>'union'\<close> is carried by the two union constructors below: the typedef of
  \<^verbatim>\<open>TypeObject\<close> makes \<^verbatim>\<open>anyOf\<close> required for a union object, so an object of kind
  union always holds its list of alternatives, and the other fields of a union object
  are never read by any function of the module.

  \<^item> \<open>TStr k\<close> is the bare string \<open>k\<close>;
  \<^item> \<open>TList ts\<close> is the plain list \<^verbatim>\<open>[t1, ..., tn]\<close>;
  \<^item> \<open>TObj k returns params elements\<close> is a type object of a kind other than union;
    a field that is absent (or undefined) is \<open>None\<close>;
  \<^item> \<open>TUnion ts\<close> is \<^verbatim>\<open>{kind: 'union', anyOf: [t1, ..., tn]}\<close>;
  \<^item> \<open>TIter t\<close> is the iterator result object \<^verbatim>\<open>{value: t, done: false}\<close>. It is
    not a Type, but \<^verbatim>\<open>union\<close> can return it (see \<open>union\<close> below), and from there it
    reaches the other functions; it is an object without a \<^verbatim>\<open>kind\<close> property.

  A Parameter \<^verbatim>\<open>{name?, type?}\<close> is a pair of two optional fields. An argument of type
  \<^verbatim>\<open>(Type|undefined)\<close> is a \<open>ty option\<close>, \<open>None\<close> being \<^verbatim>\<open>undefined\<close>. Every Type value
  is truthy in JavaScript (kind strings are non-empty, lists and objects are truthy),
  so the source's truthiness tests on types are tests for \<open>None\<close>.
\<close>

datatype kind =
    KUndefined | KNull | KBoolean | KNumber | KString | KSymbol | KObject
  | KFunction | KArray | KAny

fun kind_name :: "kind \<Rightarrow> string" where
  "kind_name KUndefined = ''undefined''"
| "kind_name KNull = ''null''"
| "kind_name KBoolean = ''boolean''"
| "kind_name KNumber = ''number''"
| "kind_name KString = ''string''"
| "kind_name KSymbol = ''symbol''"
| "kind_name KObject = ''object''"
| "kind_name KFunction = ''function''"
| "kind_name KArray = ''array''"
| "kind_name KAny = ''any''"

datatype ty =
    TStr kind
  | TList "ty list"
  | TObj kind "ty option" "(string option \<times> ty option) list option" "ty option"
  | TUnion "ty list"
  | TIter ty

type_synonym param = "string option \<times> ty option"

text \<open>What \<^verbatim>\<open>getKind\<close> returns: a kind string, \<^verbatim>\<open>'union'\<close>, or undefined (\<open>None\<close>).\<close>

datatype gkind = GK kind | GUnion

fun getKind :: "ty option \<Rightarrow> gkind option" where
  "getKind None = None"
| "getKind (Some (TStr k)) = Some (GK k)"
| "getKind (Some (TList ts)) = Some GUnion"
| "getKind (Some (TObj k r p e)) = Some (GK k)"
| "getKind (Some (TUnion ts)) = Some GUnion"
| "getKind (Some (TIter t)) = None"

fun isUnion :: "ty option \<Rightarrow> bool" where
  "isUnion (Some (TList ts)) = True"
| "isUnion (Some (TUnion ts)) = True"
| "isUnion _ = False"

fun getUnionTypes :: "ty option \<Rightarrow> ty list" where
  "getUnionTypes None = []"
| "getUnionTypes (Some (TList ts)) = ts"
| "getUnionTypes (Some (TUnion ts)) = ts"
| "getUnionTypes (Some t) = [t]"

text \<open>
  Property reads \<^verbatim>\<open>t.returns\<close>, \<^verbatim>\<open>t.params\<close>, \<^verbatim>\<open>t.elements\<close>: on a string they give
  undefined.
\<close>

fun returns :: "ty option \<Rightarrow> ty option" where
  "returns (Some (TObj k r p e)) = r"
| "returns _ = None"

fun params :: "ty option \<Rightarrow> param list option" where
  "params (Some (TObj k r p e)) = p"
| "params _ = None"

fun elements :: "ty option \<Rightarrow> ty option" where
  "elements (Some (TObj k r p e)) = e"
| "elements _ = None"

text \<open>
  \<^verbatim>\<open>isFalsy\<close> and \<^verbatim>\<open>isTruthy\<close> test \<^verbatim>\<open>Array.isArray(type)\<close>, so only the plain-list
  form of a union is looked into; a union object has kind \<^verbatim>\<open>'union'\<close>, which is in
  neither list of kinds.
\<close>

fun isFalsy :: "ty option \<Rightarrow> bool" where
  "isFalsy (Some (TList ts)) = (ts \<noteq> [] \<and> list_all (\<lambda>t. isFalsy (Some t)) ts)"
| "isFalsy t = (getKind t \<in> {Some (GK KUndefined), Some (GK KNull)})"

fun isTruthy :: "ty option \<Rightarrow> bool" where
  "isTruthy (Some (TList ts)) = (ts \<noteq> [] \<and> list_all (\<lambda>t. isTruthy (Some t)) ts)"
| "isTruthy t =
     (getKind t \<in> {Some (GK KSymbol), Some (GK KObject), Some (GK KFunction), Some (GK KArray)})"

subsection \<open>isAssignable\<close>

definition osize :: "ty option \<Rightarrow> nat" where
  "osize t = (case t of None \<Rightarrow> 0 | Some x \<Rightarrow> Suc (size x))"

lemma size_in_list: "x \<in> set xs \<Longrightarrow> f x \<le> size_list f xs"
  by (induction xs) auto

lemma osize_union: "isUnion s \<Longrightarrow> t \<in> set (getUnionTypes s) \<Longrightarrow> osize (Some t) < osize s"
  by (cases s rule: isUnion.cases) (auto simp: osize_def less_Suc_eq_le size_in_list)

lemma osize_returns_lt: "returns t \<noteq> None \<Longrightarrow> osize (returns t) < osize t"
  by (cases t rule: returns.cases) (auto simp: osize_def split: option.splits)

lemma osize_elements_lt: "elements t \<noteq> None \<Longrightarrow> osize (elements t) < osize t"
  by (cases t rule: elements.cases) (auto simp: osize_def split: option.splits)

lemma osize_returns_lt': "t \<noteq> None \<Longrightarrow> osize (returns t) < osize t"
  by (cases t rule: returns.cases) (auto simp: osize_def split: option.splits)

lemma osize_elements_lt': "t \<noteq> None \<Longrightarrow> osize (elements t) < osize t"
  by (cases t rule: elements.cases) (auto simp: osize_def split: option.splits)

lemma osize_returns_le: "osize (returns t) \<le> osize t"
  by (cases t rule: returns.cases) (auto simp: osize_def split: option.splits)

lemma osize_elements_le: "osize (elements t) \<le> osize t"
  by (cases t rule: elements.cases) (auto simp: osize_def split: option.splits)

lemma osize_param: "params t = Some ps \<Longrightarrow> p \<in> set ps \<Longrightarrow> osize (snd p) < osize t"
proof (cases t rule: params.cases)
  case (1 k r pp e)
  assume a: "params t = Some ps" "p \<in> set ps"
  let ?f = "size_prod (\<lambda>_. 0) (size_option size) :: param \<Rightarrow> nat"
  have "osize (snd p) \<le> Suc (?f p)"
    by (cases p) (auto simp: osize_def split: option.splits)
  moreover have "?f p \<le> size_list ?f ps" using a(2) by (rule size_in_list)
  ultimately show ?thesis using 1 a(1) by (simp add: osize_def)
qed (auto)

text \<open>
  \<^verbatim>\<open>isAssignable(target, source)\<close>. The union tests come first, the source's before the
  target's; then the switch on \<^verbatim>\<open>getKind(target)\<close>. A switch that matches no case
  returns undefined, which every caller tests for truthiness: it is \<open>False\<close> here.
  In the function case the source's parameter list is walked and each parameter type
  of the source is the \<^emph>\<open>target\<close> of the recursive call.
\<close>

function isAssignable :: "ty option \<Rightarrow> ty option \<Rightarrow> bool" where
  "isAssignable target source =
    (if isUnion source then
       list_all (\<lambda>t. isAssignable target (Some t)) (getUnionTypes source)
     else if isUnion target then
       list_ex (\<lambda>t. isAssignable (Some t) source) (getUnionTypes target)
     else
       (case getKind target of
          None \<Rightarrow> False
        | Some GUnion \<Rightarrow> False
        | Some (GK KUndefined) \<Rightarrow> getKind source = getKind target
        | Some (GK KNull) \<Rightarrow> getKind source = getKind target
        | Some (GK KBoolean) \<Rightarrow> getKind source = getKind target
        | Some (GK KNumber) \<Rightarrow> getKind source = getKind target
        | Some (GK KString) \<Rightarrow> getKind source = getKind target
        | Some (GK KSymbol) \<Rightarrow> getKind source = getKind target
        | Some (GK KObject) \<Rightarrow>
            getKind source = getKind target \<or> getKind source = Some (GK KArray)
        | Some (GK KFunction) \<Rightarrow>
            getKind source = getKind target \<and>
            isAssignable (returns target) (returns source) \<and>
            (case (params target, params source) of
               (Some tps, Some sps) \<Rightarrow>
                 length tps = length sps \<and>
                 list_all (\<lambda>(p, q). isAssignable (snd p) (snd q)) (zip sps tps)
             | _ \<Rightarrow> False)
        | Some (GK KArray) \<Rightarrow>
            getKind source = getKind target \<and>
            isAssignable (elements target) (elements source)
        | Some (GK KAny) \<Rightarrow> True))"
  by pat_completeness auto
termination
proof (relation "measure (\<lambda>(t, s). osize t + osize s)", goal_cases)
  case 1
  then show ?case by simp
next
  case (2 target source t)
  then show ?case using osize_union[of source t] by simp
next
  case (3 target source t)
  then show ?case using osize_union[of target t] by simp
next
  case (4 target source)
  then have "target \<noteq> None" by (cases target) auto
  then show ?case
    using osize_returns_lt'[of target] osize_returns_le[of source] by simp
next
  case (5 target source x2 x1 x y tps sps pq p q)
  have "p \<in> set sps" "q \<in> set tps"
    using 5 by (auto dest: set_zip_leftD set_zip_rightD)
  moreover have "params target = Some tps" "params source = Some sps"
    using 5 by auto
  ultimately have "osize (snd q) < osize target" "osize (snd p) < osize source"
    by (auto intro: osize_param)
  then show ?case by simp
next
  case (6 target source)
  then have "target \<noteq> None" by (cases target) auto
  then show ?case
    using osize_elements_lt'[of target] osize_elements_le[of source] by simp
qed

declare isAssignable.simps [simp del]

definition isNotAssignable :: "ty option \<Rightarrow> ty option \<Rightarrow> bool" where
  "isNotAssignable target source = (target \<noteq> None \<and> \<not> isAssignable target source)"

subsection \<open>union\<close>

text \<open>
  The \<^verbatim>\<open>Set\<close> of the pairwise merge keeps insertion order and no duplicates; it is a
  duplicate-free list. \<^verbatim>\<open>Set\<close> compares strings by value and objects by identity; the
  model compares structurally, which is the same for bare kind strings and for one
  object reached twice.
\<close>

definition set_add :: "'a \<Rightarrow> 'a list \<Rightarrow> 'a list" where
  "set_add x xs = (if x \<in> set xs then xs else xs @ [x])"

definition set_delete :: "'a \<Rightarrow> 'a list \<Rightarrow> 'a list" where
  "set_delete x xs = removeAll x xs"

definition new_Set :: "'a list \<Rightarrow> 'a list" where
  "new_Set xs = fold set_add xs []"

text \<open>The body of the inner loop, for one pair \<open>(be, ae)\<close>.\<close>

definition merge_pair :: "ty \<Rightarrow> ty \<Rightarrow> ty list \<Rightarrow> ty list" where
  "merge_pair be ae members =
     (if isAssignable (Some be) (Some ae) then
        (if isAssignable (Some ae) (Some be) then members
         else set_add be (set_delete ae members))
      else if isAssignable (Some ae) (Some be) then members
      else set_add be members)"

definition merge_members :: "ty list \<Rightarrow> ty list \<Rightarrow> ty list" where
  "merge_members aTypes bTypes =
     fold (\<lambda>be members. fold (merge_pair be) aTypes members) bTypes (new_Set aTypes)"

text \<open>
  \<^verbatim>\<open>union(a, b)\<close>. The last line of the pairwise merge is
  \<^verbatim>\<open>members.size !== 1 ? Array.from(members) : members.values().next()\<close>: with one
  member left it returns what \<^verbatim>\<open>next()\<close> returns, the iterator result object
  \<^verbatim>\<open>{value: member, done: false}\<close>, which is \<open>TIter member\<close>.
\<close>

definition union :: "ty option \<Rightarrow> ty option \<Rightarrow> ty option" where
  "union a b =
     (case (a, b) of
        (Some ta, Some tb) \<Rightarrow>
          if isAssignable a b then a
          else if isAssignable b a then b
          else if isUnion a then
            (if isUnion b then
               (let members = merge_members (getUnionTypes a) (getUnionTypes b) in
                if length members \<noteq> 1 then Some (TList members)
                else Some (TIter (hd members)))
             else Some (TList (getUnionTypes a @ [tb])))
          else if isUnion b then Some (TList (ta # getUnionTypes b))
          else Some (TList [ta, tb])
      | _ \<Rightarrow> None)"

subsection \<open>formatType\<close>

text \<open>\<^verbatim>\<open>Array.prototype.join\<close>.\<close>

fun join :: "string \<Rightarrow> string list \<Rightarrow> string" where
  "join sep [] = []"
| "join sep [x] = x"
| "join sep (x # y # ys) = x @ sep @ join sep (y # ys)"

fun kind_string :: "gkind option \<Rightarrow> string" where
  "kind_string (Some (GK k)) = kind_name k"
| "kind_string (Some GUnion) = ''union''"
| "kind_string None = ''unknown''"

text \<open>
  The local \<^verbatim>\<open>precedence\<close> of \<^verbatim>\<open>formatType\<close> starts undefined (\<open>None\<close>) and is
  assigned in the argument lists \<^verbatim>\<open>formatType(alt, precedence = 1)\<close> (once per
  alternative, so never for an empty union) and
  \<^verbatim>\<open>formatType(type.returns, precedence = 2)\<close>. The final test
  \<^verbatim>\<open>precedence < contextPrecedence\<close> is false for undefined.
\<close>

definition precedence_lt :: "nat option \<Rightarrow> nat \<Rightarrow> bool" where
  "precedence_lt precedence contextPrecedence =
     (case precedence of None \<Rightarrow> False | Some p \<Rightarrow> p < contextPrecedence)"

definition parenthesize :: "nat option \<Rightarrow> nat \<Rightarrow> string \<Rightarrow> string" where
  "parenthesize precedence contextPrecedence result =
     (if precedence_lt precedence contextPrecedence then ''('' @ result @ '')'' else result)"

text \<open>A parameter name is truthy when it is present and not the empty string.\<close>

definition truthy_name :: "string option \<Rightarrow> bool" where
  "truthy_name n = (case n of None \<Rightarrow> False | Some s \<Rightarrow> s \<noteq> [])"

text \<open>
  \<^verbatim>\<open>formatParam(param)\<close>, given \<open>paramType = formatType (snd param) 0\<close>, which the
  source computes first.
\<close>

definition formatParam_with :: "param \<Rightarrow> string \<Rightarrow> string" where
  "formatParam_with param paramType =
     (if truthy_name (fst param) \<and> snd param \<noteq> None then the (fst param) @ '': '' @ paramType
      else if snd param \<noteq> None then '':'' @ paramType
      else if truthy_name (fst param) then the (fst param) else ''_'')"

function formatType :: "ty option \<Rightarrow> nat \<Rightarrow> string" where
  "formatType t contextPrecedence =
     (if isUnion t then
        parenthesize (if getUnionTypes t = [] then None else Some 1) contextPrecedence
          (join '' | '' (map (\<lambda>alt. formatType (Some alt) 1) (getUnionTypes t)))
      else if getKind t = Some (GK KFunction) then
        parenthesize (if returns t \<noteq> None then Some 2 else None) contextPrecedence
          (kind_string (getKind t) @
           (case params t of
              None \<Rightarrow> []
            | Some ps \<Rightarrow>
                ''('' @ join '', '' (map (\<lambda>p. formatParam_with p (formatType (snd p) 0)) ps)
                  @ '')'') @
           (if returns t \<noteq> None then '': '' @ formatType (returns t) 2 else []))
      else if getKind t = Some (GK KArray) \<and> elements t \<noteq> None then
        formatType (elements t) 3 @ ''[]''
      else kind_string (getKind t))"
  by pat_completeness auto
termination
proof (relation "measure (\<lambda>(t, c). osize t)", goal_cases)
  case 1
  then show ?case by simp
next
  case (2 t contextPrecedence alt)
  then show ?case using osize_union[of t alt] by simp
next
  case (3 t contextPrecedence ps p)
  then show ?case using osize_param[of t ps p] by simp
next
  case (4 t contextPrecedence)
  then show ?case using osize_returns_lt[of t] by simp
next
  case (5 t contextPrecedence)
  then show ?case using osize_elements_lt[of t] by simp
qed

declare formatType.simps [simp del]

definition formatParam :: "param \<Rightarrow> string" where
  "formatParam param = formatParam_with param (formatType (snd param) 0)"

subsection \<open>toCanonical and toShorthand\<close>

text \<open>
  What the module can throw. \<^verbatim>\<open>transformFunction\<close> assigns to an undeclared variable
  \<^verbatim>\<open>results\<close> when its parameter list has changed; in a strict-mode module that
  assignment is a ReferenceError.
\<close>

datatype error = Error string | ReferenceError string | TypeError string | RangeError string

text \<open>
  \<^verbatim>\<open>arr.map(fn)\<close> with a callback that may throw: the first exception ends the call.
\<close>

fun sequence :: "(error + 'a) list \<Rightarrow> error + 'a list" where
  "sequence [] = Inr []"
| "sequence (Inl e # rs) = Inl e"
| "sequence (Inr x # rs) = (case sequence rs of Inl e \<Rightarrow> Inl e | Inr xs \<Rightarrow> Inr (x # xs))"

text \<open>
  \<^verbatim>\<open>arrayElementsEqual\<close> and the \<^verbatim>\<open>!==\<close> tests of the transform functions compare by
  identity. Each conversion returns its argument itself when nothing below it changed
  and a structurally different value otherwise, so identity and structural equality
  agree on the values compared here.
\<close>

definition arrayElementsEqual :: "'a list \<Rightarrow> 'a list \<Rightarrow> bool" where
  "arrayElementsEqual a b = list_all (\<lambda>(v, w). v = w) (zip a b)"

definition mapIfChanged :: "'a list \<Rightarrow> ('a \<Rightarrow> error + 'a) \<Rightarrow> error + 'a list" where
  "mapIfChanged arr fn =
     (case sequence (map fn arr) of
        Inl e \<Rightarrow> Inl e
      | Inr newArr \<Rightarrow> Inr (if arrayElementsEqual arr newArr then arr else newArr))"

text \<open>
  \<^verbatim>\<open>transformFunction(type, fn)\<close> applies \<^verbatim>\<open>fn\<close> to \<^verbatim>\<open>type.returns\<close> and, through
  \<^verbatim>\<open>mapIfChanged\<close>, to every element of \<^verbatim>\<open>type.params\<close>, which are Parameter objects
  and not Types; \<open>fnp\<close> is \<^verbatim>\<open>fn\<close> on Parameter objects. The branch
  \<^verbatim>\<open>if (params !== type.params) results.params = params\<close> throws.
\<close>

definition transformFunction ::
  "ty \<Rightarrow> (ty \<Rightarrow> error + ty) \<Rightarrow> (param \<Rightarrow> error + param) \<Rightarrow> error + ty" where
  "transformFunction t fn fnp =
     (case t of
        TObj k r p e \<Rightarrow>
          (case (case r of None \<Rightarrow> Inr None
                 | Some rt \<Rightarrow> (case fn rt of Inl er \<Rightarrow> Inl er | Inr rt' \<Rightarrow> Inr (Some rt'))) of
             Inl er \<Rightarrow> Inl er
           | Inr returns' \<Rightarrow>
              (case (case p of None \<Rightarrow> Inr None
                     | Some ps \<Rightarrow> (case mapIfChanged ps fnp of Inl er \<Rightarrow> Inl er
                                   | Inr ps' \<Rightarrow> Inr (Some ps'))) of
                 Inl er \<Rightarrow> Inl er
               | Inr params' \<Rightarrow>
                   if returns' \<noteq> r \<or> params' \<noteq> p then
                     (if params' \<noteq> p then Inl (ReferenceError ''results is not defined'')
                      else Inr (TObj k returns' p e))
                   else Inr t))
      | _ \<Rightarrow> Inr t)"

definition transformArray :: "ty \<Rightarrow> (ty \<Rightarrow> error + ty) \<Rightarrow> error + ty" where
  "transformArray t fn =
     (case t of
        TObj k r p (Some el) \<Rightarrow>
          (case fn el of Inl er \<Rightarrow> Inl er
           | Inr elements' \<Rightarrow>
               if elements' \<noteq> el then Inr (TObj k r p (Some elements')) else Inr t)
      | _ \<Rightarrow> Inr t)"

definition transformUnion :: "ty \<Rightarrow> (ty \<Rightarrow> error + ty) \<Rightarrow> error + ty" where
  "transformUnion t fn =
     (case t of
        TUnion anyOf \<Rightarrow>
          (case mapIfChanged anyOf fn of Inl er \<Rightarrow> Inl er
           | Inr anyOf' \<Rightarrow> if anyOf' \<noteq> anyOf then Inr (TUnion anyOf') else Inr t)
      | _ \<Rightarrow> Inr t)"

lemma mapIfChanged_cong [fundef_cong]:
  assumes "xs = ys" and "\<And>x. x \<in> set ys \<Longrightarrow> f x = g x"
  shows "mapIfChanged xs f = mapIfChanged ys g"
proof -
  have "map f ys = map g ys" using assms(2) by simp
  then show ?thesis unfolding mapIfChanged_def assms(1) by (simp only:)
qed

lemma transformFunction_cong [fundef_cong]:
  assumes "t = t'" and "\<And>x. returns (Some t') = Some x \<Longrightarrow> f x = g x" and "fp = gp"
  shows "transformFunction t f fp = transformFunction t' g gp"
proof -
  have "transformFunction t' f gp = transformFunction t' g gp"
  proof (cases t')
    case (TObj k r p e)
    show ?thesis
    proof (cases r)
      case None
      then show ?thesis using TObj by (simp add: transformFunction_def)
    next
      case (Some x)
      then have "f x = g x" using assms(2) TObj by simp
      then show ?thesis using TObj Some by (simp add: transformFunction_def)
    qed
  qed (simp_all add: transformFunction_def)
  then show ?thesis using assms(1,3) by simp
qed

lemma transformArray_cong [fundef_cong]:
  assumes "t = t'" and "\<And>x. elements (Some t') = Some x \<Longrightarrow> f x = g x"
  shows "transformArray t f = transformArray t' g"
proof -
  have "transformArray t' f = transformArray t' g"
  proof (cases t')
    case (TObj k r p e)
    show ?thesis
    proof (cases e)
      case None
      then show ?thesis using TObj by (simp add: transformArray_def)
    next
      case (Some x)
      then have "f x = g x" using assms(2) TObj by simp
      then show ?thesis using TObj Some by (simp add: transformArray_def)
    qed
  qed (simp_all add: transformArray_def)
  then show ?thesis using assms(1) by simp
qed

lemma transformUnion_cong [fundef_cong]:
  assumes "t = t'" and "\<And>x. x \<in> set (getUnionTypes (Some t')) \<Longrightarrow> f x = g x"
  shows "transformUnion t f = transformUnion t' g"
proof -
  have "transformUnion t' f = transformUnion t' g"
  proof (cases t')
    case (TUnion ts)
    then have "mapIfChanged ts f = mapIfChanged ts g"
      using assms(2) by (intro mapIfChanged_cong) simp_all
    then show ?thesis using TUnion by (simp add: transformUnion_def)
  qed (simp_all add: transformUnion_def)
  then show ?thesis using assms(1) by simp
qed







subsection \<open>Evaluation rules\<close>

text \<open>
  The defining equations of \<open>isAssignable\<close> and \<open>formatType\<close> rewrite a call into
  itself; these conditional forms unfold one call whose shape is known.
\<close>

lemma isAssignable_union_source:
  "isUnion s \<Longrightarrow> isAssignable t s = list_all (\<lambda>x. isAssignable t (Some x)) (getUnionTypes s)"
  by (subst isAssignable.simps) simp

lemma isAssignable_union_target:
  "\<not> isUnion s \<Longrightarrow> isUnion t \<Longrightarrow>
   isAssignable t s = list_ex (\<lambda>x. isAssignable (Some x) s) (getUnionTypes t)"
  by (subst isAssignable.simps) simp

lemma isAssignable_plain:
  "\<not> isUnion s \<Longrightarrow> \<not> isUnion t \<Longrightarrow>
   isAssignable t s =
     (case getKind t of
        None \<Rightarrow> False
      | Some GUnion \<Rightarrow> False
      | Some (GK KUndefined) \<Rightarrow> getKind s = getKind t
      | Some (GK KNull) \<Rightarrow> getKind s = getKind t
      | Some (GK KBoolean) \<Rightarrow> getKind s = getKind t
      | Some (GK KNumber) \<Rightarrow> getKind s = getKind t
      | Some (GK KString) \<Rightarrow> getKind s = getKind t
      | Some (GK KSymbol) \<Rightarrow> getKind s = getKind t
      | Some (GK KObject) \<Rightarrow> getKind s = getKind t \<or> getKind s = Some (GK KArray)
      | Some (GK KFunction) \<Rightarrow>
          getKind s = getKind t \<and>
          isAssignable (returns t) (returns s) \<and>
          (case (params t, params s) of
             (Some tps, Some sps) \<Rightarrow>
               length tps = length sps \<and>
               list_all (\<lambda>(p, q). isAssignable (snd p) (snd q)) (zip sps tps)
           | _ \<Rightarrow> False)
      | Some (GK KArray) \<Rightarrow> getKind s = getKind t \<and> isAssignable (elements t) (elements s)
      | Some (GK KAny) \<Rightarrow> True)"
  by (subst isAssignable.simps) simp

lemmas isAssignable_eval = isAssignable_union_source isAssignable_union_target isAssignable_plain

lemmas union_eval = union_def merge_members_def merge_pair_def set_add_def set_delete_def
  new_Set_def isAssignable_eval

lemma formatType_union:
  "isUnion t \<Longrightarrow> formatType t c =
     parenthesize (if getUnionTypes t = [] then None else Some 1) c
       (join '' | '' (map (\<lambda>alt. formatType (Some alt) 1) (getUnionTypes t)))"
  by (subst formatType.simps) simp

lemma formatType_function:
  "\<not> isUnion t \<Longrightarrow> getKind t = Some (GK KFunction) \<Longrightarrow> formatType t c =
     parenthesize (if returns t \<noteq> None then Some 2 else None) c
       (''function'' @
        (case params t of None \<Rightarrow> []
         | Some ps \<Rightarrow>
             ''('' @ join '', '' (map (\<lambda>p. formatParam_with p (formatType (snd p) 0)) ps)
               @ '')'') @
        (if returns t \<noteq> None then '': '' @ formatType (returns t) 2 else []))"
  by (subst formatType.simps) simp

lemma formatType_array:
  "\<not> isUnion t \<Longrightarrow> getKind t = Some (GK KArray) \<Longrightarrow> elements t \<noteq> None \<Longrightarrow>
   formatType t c = formatType (elements t) 3 @ ''[]''"
  by (subst formatType.simps) simp

lemma formatType_other:
  "\<not> isUnion t \<Longrightarrow> getKind t \<noteq> Some (GK KFunction) \<Longrightarrow>
   \<not> (getKind t = Some (GK KArray) \<and> elements t \<noteq> None) \<Longrightarrow>
   formatType t c = kind_string (getKind t)"
  by (subst formatType.simps) simp

lemmas formatType_eval = formatType_union formatType_function formatType_array formatType_other
  parenthesize_def precedence_lt_def formatParam_with_def truthy_name_def

subsection \<open>Reflexivity of isAssignable and idempotence of union\<close>

text \<open>
  An array type without element type and a function type without return type,
  without parameter list or with a parameter that has no type are not assignable to
  themselves: the recursive call on the missing component has an undefined target.
  \<open>specified\<close> holds of the types that have none of these anywhere inside.
\<close>

fun specified :: "ty \<Rightarrow> bool" where
  "specified (TStr k) = (k \<noteq> KFunction \<and> k \<noteq> KArray)"
| "specified (TList ts) = list_all specified ts"
| "specified (TUnion ts) = list_all specified ts"
| "specified (TObj k r p e) =
     (if k = KFunction then
        (case r of None \<Rightarrow> False | Some t \<Rightarrow> specified t) \<and>
        (case p of None \<Rightarrow> False
         | Some ps \<Rightarrow>
             list_all (\<lambda>q. case snd q of None \<Rightarrow> False | Some t \<Rightarrow> specified t) ps)
      else if k = KArray then (case e of None \<Rightarrow> False | Some t \<Rightarrow> specified t)
      else True)"
| "specified (TIter t) = False"

lemma isAssignable_alternative:
  "isUnion target \<Longrightarrow> t \<in> set (getUnionTypes target) \<Longrightarrow>
   isAssignable (Some t) s \<Longrightarrow> isAssignable target s"
proof (induction "osize s" arbitrary: s rule: less_induct)
  case less
  show ?case
  proof (cases "isUnion s")
    case True
    have "isAssignable target (Some x)" if "x \<in> set (getUnionTypes s)" for x
    proof -
      have "osize (Some x) < osize s" using True that by (rule osize_union)
      moreover have "isAssignable (Some t) (Some x)"
        using less.prems(3) True that by (simp add: isAssignable_union_source list_all_iff)
      ultimately show ?thesis using less.hyps less.prems(1,2) by blast
    qed
    then show ?thesis using True by (simp add: isAssignable_union_source list_all_iff)
  next
    case False
    then show ?thesis using less.prems
      by (auto simp: isAssignable_union_target list_ex_iff)
  qed
qed

lemma isAssignable_refl: "specified t \<Longrightarrow> isAssignable (Some t) (Some t)"
proof (induction "size t" arbitrary: t rule: less_induct)
  case less
  show ?case
  proof (cases t)
    case (TStr k)
    then show ?thesis using less.prems by (cases k) (simp_all add: isAssignable_plain)
  next
    case (TList ts)
    have "isAssignable (Some t) (Some x)" if "x \<in> set ts" for x
    proof -
      have "size x < size t" using that TList by (simp add: less_Suc_eq_le size_in_list)
      moreover have "specified x" using less.prems TList that by (simp add: list_all_iff)
      ultimately have "isAssignable (Some x) (Some x)" using less.hyps by blast
      then show ?thesis
        using isAssignable_alternative[of "Some t" x "Some x"] TList that by simp
    qed
    then show ?thesis using TList by (simp add: isAssignable_union_source list_all_iff)
  next
    case (TUnion ts)
    have "isAssignable (Some t) (Some x)" if "x \<in> set ts" for x
    proof -
      have "size x < size t" using that TUnion by (simp add: less_Suc_eq_le size_in_list)
      moreover have "specified x" using less.prems TUnion that by (simp add: list_all_iff)
      ultimately have "isAssignable (Some x) (Some x)" using less.hyps by blast
      then show ?thesis
        using isAssignable_alternative[of "Some t" x "Some x"] TUnion that by simp
    qed
    then show ?thesis using TUnion by (simp add: isAssignable_union_source list_all_iff)
  next
    case (TIter x)
    then show ?thesis using less.prems by simp
  next
    case (TObj k r p e)
    show ?thesis
    proof (cases "k = KFunction")
      case True
      have sp: "(case r of None \<Rightarrow> False | Some t \<Rightarrow> specified t) \<and>
        (case p of None \<Rightarrow> False
         | Some ps \<Rightarrow>
             list_all (\<lambda>q. case snd q of None \<Rightarrow> False | Some t \<Rightarrow> specified t) ps)"
        using less.prems TObj True by simp
      obtain rt where r: "r = Some rt" "specified rt"
        using sp by (cases r) auto
      obtain ps where p: "p = Some ps"
        and pall': "list_all (\<lambda>q. case snd q of None \<Rightarrow> False | Some t \<Rightarrow> specified t) ps"
        using sp by (cases p) auto
      have pall: "\<exists>qt. snd q = Some qt \<and> specified qt" if "q \<in> set ps" for q
        using pall' that by (cases "snd q") (auto simp: list_all_iff)
      have "size rt < size t" using TObj r by simp
      then have rr: "isAssignable (Some rt) (Some rt)" using less.hyps r by blast
      have pp: "isAssignable (snd q) (snd q)" if "q \<in> set ps" for q
      proof -
        have "\<exists>qt. snd q = Some qt \<and> specified qt" using that by (rule pall)
        then obtain qt where q: "snd q = Some qt" "specified qt" by blast
        have "osize (snd q) < osize (Some t)"
          using osize_param[of "Some t" ps q] TObj p that by simp
        then have "size qt < size t" using q by (simp add: osize_def)
        then show ?thesis using less.hyps q by simp
      qed
      have "list_all (\<lambda>(a, b). isAssignable (snd a) (snd b)) (zip ps ps)"
        using pp by (auto simp: list_all_iff zip_same)
      then show ?thesis using TObj True r p rr
        by (simp add: isAssignable_plain)
    next
      case False
      show ?thesis
      proof (cases "k = KArray")
        case True
        obtain et where e: "e = Some et" "specified et"
          using less.prems TObj True by (auto split: option.splits)
        have "size et < size t" using TObj e by simp
        then have "isAssignable (Some et) (Some et)" using less.hyps e by blast
        then show ?thesis using TObj True e by (simp add: isAssignable_plain)
      next
        case False
        then show ?thesis using TObj \<open>k \<noteq> KFunction\<close>
          by (cases k) (simp_all add: isAssignable_plain)
      qed
    qed
  qed
qed

lemma union_absorbs_self: "isAssignable (Some t) (Some t) \<Longrightarrow> union (Some t) (Some t) = Some t"
  by (simp add: union_def)

text \<open>
  C1 (as amended). For every Type \<open>a\<close> in which each array type carries an element
  type and each function type carries a return type and a parameter list whose
  parameters all carry a type (bare \<^verbatim>\<open>'array'\<close> and \<^verbatim>\<open>'function'\<close> excluded, canonical
  objects and unions of such types included), \<^verbatim>\<open>isAssignable(a, a)\<close> is true and
  \<^verbatim>\<open>union(a, a)\<close> is \<open>a\<close>.
\<close>

theorem isAssignable_refl_union_idem:
  "specified a \<Longrightarrow> isAssignable (Some a) (Some a) \<and> union (Some a) (Some a) = Some a"
  using isAssignable_refl[of a] union_absorbs_self[of a] by simp

theorem isAssignable_refl_union_idem_witness:
  "specified (TList [TStr KNumber, TObj KObject None None None,
       TObj KArray None None (Some (TStr KString)),
       TObj KFunction (Some (TStr KAny)) (Some [(None, Some (TStr KAny))]) None]) \<and>
   isAssignable
     (Some (TList [TStr KNumber, TObj KObject None None None,
       TObj KArray None None (Some (TStr KString)),
       TObj KFunction (Some (TStr KAny)) (Some [(None, Some (TStr KAny))]) None]))
     (Some (TList [TStr KNumber, TObj KObject None None None,
       TObj KArray None None (Some (TStr KString)),
       TObj KFunction (Some (TStr KAny)) (Some [(None, Some (TStr KAny))]) None])) \<and>
   union
     (Some (TList [TStr KNumber, TObj KObject None None None,
       TObj KArray None None (Some (TStr KString)),
       TObj KFunction (Some (TStr KAny)) (Some [(None, Some (TStr KAny))]) None]))
     (Some (TList [TStr KNumber, TObj KObject None None None,
       TObj KArray None None (Some (TStr KString)),
       TObj KFunction (Some (TStr KAny)) (Some [(None, Some (TStr KAny))]) None])) =
   Some (TList [TStr KNumber, TObj KObject None None None,
       TObj KArray None None (Some (TStr KString)),
       TObj KFunction (Some (TStr KAny)) (Some [(None, Some (TStr KAny))]) None])"
proof -
  let ?a = "TList [TStr KNumber, TObj KObject None None None,
       TObj KArray None None (Some (TStr KString)),
       TObj KFunction (Some (TStr KAny)) (Some [(None, Some (TStr KAny))]) None]"
  have s: "specified ?a" by simp
  show ?thesis using s isAssignable_refl_union_idem[OF s] by simp
qed

text \<open>
  C1 as stated fails for the bare kind strings it names: \<^verbatim>\<open>isAssignable('array', 'array')\<close>
  and \<^verbatim>\<open>isAssignable('function', 'function')\<close> are false, and \<^verbatim>\<open>union('array', 'array')\<close>
  is the two-element list \<^verbatim>\<open>['array', 'array']\<close>.
\<close>

theorem bare_array_function_not_reflexive:
  "\<not> isAssignable (Some (TStr KArray)) (Some (TStr KArray)) \<and>
   \<not> isAssignable (Some (TStr KFunction)) (Some (TStr KFunction)) \<and>
   union (Some (TStr KArray)) (Some (TStr KArray)) = Some (TList [TStr KArray, TStr KArray])"
  by (simp add: union_eval)

subsection \<open>The degenerate case of the pairwise merge\<close>

text \<open>
  C2. Neither of the unions \<^verbatim>\<open>['array']\<close> and \<^verbatim>\<open>['array']\<close> absorbs the other
  (\<^verbatim>\<open>'array'\<close> is not assignable to itself), so \<^verbatim>\<open>union\<close> merges pairwise; the set of
  members ends with the one member \<^verbatim>\<open>'array'\<close>, and the value returned is the iterator
  result object \<^verbatim>\<open>{value: 'array', done: false}\<close>, not the type \<^verbatim>\<open>'array'\<close>.
\<close>

theorem union_degenerate_returns_iterator_result:
  "merge_members [TStr KArray] [TStr KArray] = [TStr KArray] \<and>
   union (Some (TList [TStr KArray])) (Some (TList [TStr KArray])) = Some (TIter (TStr KArray)) \<and>
   union (Some (TList [TStr KArray])) (Some (TList [TStr KArray])) \<noteq> Some (TStr KArray)"
  by (simp add: union_eval)

subsection \<open>Function types: contravariant parameters, covariant return\<close>

lemma list_all_zip_nth:
  "length xs = length ys \<Longrightarrow>
   list_all (\<lambda>(p, q). P p q) (zip xs ys) = (\<forall>i<length xs. P (xs ! i) (ys ! i))"
  by (simp add: list_all_length)

text \<open>
  C3. For type objects \<open>T\<close> (target) and \<open>S\<close> (source) of kind function that both carry
  a parameter list and a return type, \<^verbatim>\<open>isAssignable(T, S)\<close> holds exactly when the
  lists have the same length, at every position the source's parameter type accepts
  the target's (\<^verbatim>\<open>isAssignable(S.params[i].type, T.params[i].type)\<close>), and
  \<^verbatim>\<open>isAssignable(T.returns, S.returns)\<close>. The third field of a parameter list entry
  is its optional type, read with \<open>snd\<close>.
\<close>

theorem isAssignable_function_iff:
  "isAssignable (Some (TObj KFunction (Some tr) (Some tps) te))
                (Some (TObj KFunction (Some sr) (Some sps) se)) \<longleftrightarrow>
   length tps = length sps \<and>
   (\<forall>i<length sps. isAssignable (snd (sps ! i)) (snd (tps ! i))) \<and>
   isAssignable (Some tr) (Some sr)"
proof -
  have "isAssignable (Some (TObj KFunction (Some tr) (Some tps) te))
            (Some (TObj KFunction (Some sr) (Some sps) se)) \<longleftrightarrow>
        isAssignable (Some tr) (Some sr) \<and> length tps = length sps \<and>
        list_all (\<lambda>(p, q). isAssignable (snd p) (snd q)) (zip sps tps)"
    by (subst isAssignable.simps) simp
  moreover have "length tps = length sps \<Longrightarrow>
      list_all (\<lambda>(p, q). isAssignable (snd p) (snd q)) (zip sps tps) =
      (\<forall>i<length sps. isAssignable (snd (sps ! i)) (snd (tps ! i)))"
    using list_all_zip_nth[of sps tps "\<lambda>p q. isAssignable (snd p) (snd q)"] by simp
  ultimately show ?thesis by blast
qed

text \<open>
  The witness is the pair \<open>c\<close>, \<open>b\<close> of the module's own test: \<open>c\<close> takes a string and
  \<open>b\<close> takes anything; \<open>b\<close> is assignable to \<open>c\<close> and \<open>c\<close> is not assignable to \<open>b\<close>.
\<close>

theorem isAssignable_function_iff_witness:
  "isAssignable (Some (TObj KFunction (Some (TStr KString)) (Some [(None, Some (TStr KString))]) None))
                (Some (TObj KFunction (Some (TStr KString)) (Some [(None, Some (TStr KAny))]) None)) \<and>
   \<not> isAssignable (Some (TObj KFunction (Some (TStr KString)) (Some [(None, Some (TStr KAny))]) None))
                (Some (TObj KFunction (Some (TStr KString)) (Some [(None, Some (TStr KString))]) None))"
  using isAssignable_function_iff[of "TStr KString" "[(None, Some (TStr KString))]" None
          "TStr KString" "[(None, Some (TStr KAny))]" None]
        isAssignable_function_iff[of "TStr KString" "[(None, Some (TStr KAny))]" None
          "TStr KString" "[(None, Some (TStr KString))]" None]
  by (simp add: isAssignable_eval)

subsection \<open>The round trip through the canonical form\<close>















subsection \<open>What the shorthand form preserves\<close>
























subsection \<open>Parentheses in formatType\<close>

text \<open>
  The precedence \<^verbatim>\<open>formatType\<close> holds in its local \<^verbatim>\<open>precedence\<close> when it reaches
  its final test: 1 for a union with at least one alternative, 2 for a function type
  with a return type, undefined otherwise (a parameter list alone assigns nothing, and
  an array with an element type returns before the test).
\<close>

definition precedence_of :: "ty option \<Rightarrow> nat option" where
  "precedence_of t =
     (if isUnion t then (if getUnionTypes t = [] then None else Some 1)
      else if getKind t = Some (GK KFunction) \<and> returns t \<noteq> None then Some 2
      else None)"

text \<open>
  The tier of the operator a formatted type exposes, after the comment that documents
  \<^verbatim>\<open>formatType\<close>: the infix \<^verbatim>\<open>|\<close> of a union has tier 1, the prefix \<^verbatim>\<open>:\<close> of a function's
  return type tier 2, the postfix \<^verbatim>\<open>[]\<close> of an array with an element type tier 3. The
  operators of tier 0, the \<^verbatim>\<open>,\<close> of a parameter list and the \<^verbatim>\<open>:\<close> before a parameter
  type, are "surrounded by parentheses", those of the parameter list itself, so a
  type never exposes them: a kind name, a function type without return type and a
  union without alternatives expose no operator.
\<close>

definition tier :: "ty option \<Rightarrow> nat option" where
  "tier t =
     (if isUnion t then (if getUnionTypes t = [] then None else Some 1)
      else if getKind t = Some (GK KFunction) \<and> returns t \<noteq> None then Some 2
      else if getKind t = Some (GK KArray) \<and> elements t \<noteq> None then Some 3
      else None)"

text \<open>The type of the example of C6.\<close>

definition array_of_functions :: ty where
  "array_of_functions =
     TObj KArray None None (Some (TObj KFunction
       (Some (TList [TStr KNumber, TStr KString]))
       (Some [(None, Some (TList [TStr KString, TStr KNull]))]) None))"

lemma parenthesize_0: "parenthesize p 0 s = s"
  by (simp add: parenthesize_def precedence_lt_def split: option.splits)

lemma formatType_context:
  "formatType t c = parenthesize (precedence_of t) c (formatType t 0)"
proof (cases "isUnion t")
  case True
  then show ?thesis
    using formatType_union[of t c] formatType_union[of t 0]
    by (simp add: precedence_of_def parenthesize_0)
next
  case nu: False
  show ?thesis
  proof (cases "getKind t = Some (GK KFunction)")
    case True
    then show ?thesis
      using nu formatType_function[of t c] formatType_function[of t 0]
      by (simp add: precedence_of_def parenthesize_0)
  next
    case nf: False
    show ?thesis
    proof (cases "getKind t = Some (GK KArray) \<and> elements t \<noteq> None")
      case True
      then show ?thesis
        using nu formatType_array[of t c] formatType_array[of t 0]
        by (simp add: precedence_of_def parenthesize_def precedence_lt_def)
    next
      case False
      then show ?thesis
        using nu nf formatType_other[of t c] formatType_other[of t 0]
        by (simp add: precedence_of_def parenthesize_def precedence_lt_def)
    qed
  qed
qed

lemma formatType_tier:
  assumes "c \<le> 3"
  shows "formatType t c =
     (if precedence_lt (tier t) c then ''('' @ formatType t 0 @ '')'' else formatType t 0)"
proof -
  have "precedence_lt (tier t) c = precedence_lt (precedence_of t) c"
    using assms by (auto simp add: tier_def precedence_of_def precedence_lt_def)
  then show ?thesis
    by (subst formatType_context) (simp add: parenthesize_def)
qed

text \<open>
  C6. The type of the example formats as the string the claim gives. In general, for
  every type \<open>t\<close> and every context precedence \<open>c\<close> that occurs (0 at the top and for
  a parameter type, 1 for the alternatives of a union, 2 for a return type, 3 for the
  element type of an array), \<^verbatim>\<open>formatType(t, c)\<close> is \<^verbatim>\<open>formatType(t, 0)\<close> in parentheses
  exactly when the tier of the operator \<open>t\<close> exposes is strictly lower than \<open>c\<close>, and
  \<^verbatim>\<open>formatType(t, 0)\<close> itself otherwise. The nested types are formatted in these
  contexts: \<^verbatim>\<open>formatType(t, 0)\<close> joins the alternatives of a union, each formatted in
  context 1, with \<^verbatim>\<open>|\<close>; for a function type it writes the parameter list, if any,
  in parentheses, each parameter type formatted in context 0 after its \<^verbatim>\<open>:\<close>, and the
  return type, if any, formatted in context 2 after \<^verbatim>\<open>:\<close>; for an array with an element
  type it writes the element type, formatted in context 3, and \<^verbatim>\<open>[]\<close>.
\<close>

theorem formatType_parentheses:
  "formatType (Some array_of_functions) 0 =
     ''(function(:string | null): (number | string))[]'' \<and>
   (c \<le> 3 \<longrightarrow>
      formatType t c =
        (if precedence_lt (tier t) c then ''('' @ formatType t 0 @ '')'' else formatType t 0)) \<and>
   (isUnion t \<longrightarrow>
      formatType t 0 = join '' | '' (map (\<lambda>alt. formatType (Some alt) 1) (getUnionTypes t))) \<and>
   (\<not> isUnion t \<and> getKind t = Some (GK KFunction) \<longrightarrow>
      formatType t 0 =
        ''function'' @
        (case params t of
           None \<Rightarrow> []
         | Some ps \<Rightarrow> ''('' @ join '', '' (map formatParam ps) @ '')'') @
        (if returns t \<noteq> None then '': '' @ formatType (returns t) 2 else [])) \<and>
   formatParam p =
     (if truthy_name (fst p) \<and> snd p \<noteq> None then the (fst p) @ '': '' @ formatType (snd p) 0
      else if snd p \<noteq> None then '':'' @ formatType (snd p) 0
      else if truthy_name (fst p) then the (fst p) else ''_'') \<and>
   (\<not> isUnion t \<and> getKind t = Some (GK KArray) \<and> elements t \<noteq> None \<longrightarrow>
      formatType t 0 = formatType (elements t) 3 @ ''[]'')"
proof -
  have example: "formatType (Some array_of_functions) 0 =
     ''(function(:string | null): (number | string))[]''"
    by (simp add: array_of_functions_def formatType_eval)
  have general: "c \<le> 3 \<longrightarrow>
      formatType t c =
        (if precedence_lt (tier t) c then ''('' @ formatType t 0 @ '')'' else formatType t 0)"
    using formatType_tier[of c t] by blast
  have un: "isUnion t \<longrightarrow>
      formatType t 0 = join '' | '' (map (\<lambda>alt. formatType (Some alt) 1) (getUnionTypes t))"
    using formatType_union[of t 0] by (simp add: parenthesize_0)
  have fn: "\<not> isUnion t \<and> getKind t = Some (GK KFunction) \<longrightarrow>
      formatType t 0 =
        ''function'' @
        (case params t of
           None \<Rightarrow> []
         | Some ps \<Rightarrow> ''('' @ join '', '' (map formatParam ps) @ '')'') @
        (if returns t \<noteq> None then '': '' @ formatType (returns t) 2 else [])"
  proof (intro impI, elim conjE)
    assume a: "\<not> isUnion t" "getKind t = Some (GK KFunction)"
    have m: "(\<lambda>p. formatParam_with p (formatType (snd p) 0)) = formatParam"
      by (rule ext) (simp add: formatParam_def)
    show "formatType t 0 =
        ''function'' @
        (case params t of
           None \<Rightarrow> []
         | Some ps \<Rightarrow> ''('' @ join '', '' (map formatParam ps) @ '')'') @
        (if returns t \<noteq> None then '': '' @ formatType (returns t) 2 else [])"
      unfolding formatType_function[OF a] parenthesize_0 m ..
  qed
  have pa: "formatParam p =
     (if truthy_name (fst p) \<and> snd p \<noteq> None then the (fst p) @ '': '' @ formatType (snd p) 0
      else if snd p \<noteq> None then '':'' @ formatType (snd p) 0
      else if truthy_name (fst p) then the (fst p) else ''_'')"
    by (simp add: formatParam_def formatParam_with_def)
  have ar: "\<not> isUnion t \<and> getKind t = Some (GK KArray) \<and> elements t \<noteq> None \<longrightarrow>
      formatType t 0 = formatType (elements t) 3 @ ''[]''"
    using formatType_array[of t 0] by blast
  show ?thesis using example general un fn pa ar by (intro conjI)
qed

theorem formatType_parentheses_witness:
  "formatType (Some (TList [TStr KNumber, TStr KString])) 2 = ''(number | string)'' \<and>
   formatType (Some (TList [TStr KNumber, TStr KString])) 1 = ''number | string'' \<and>
   formatType (Some (TObj KFunction (Some (TStr KNumber)) None None)) 3 =
     ''(function: number)'' \<and>
   formatType (Some (TObj KFunction (Some (TStr KNumber)) None None)) 2 = ''function: number'' \<and>
   formatType (Some (TObj KFunction None (Some [(None, Some (TStr KString))]) None)) 3 =
     ''function(:string)'' \<and>
   formatType (Some (TObj KArray None None (Some (TStr KString)))) 3 = ''string[]'' \<and>
   formatType (Some (TObj KArray None None (Some (TList [TStr KNumber, TStr KString])))) 0 =
     ''(number | string)[]''"
proof -
  let ?u = "Some (TList [TStr KNumber, TStr KString])"
  let ?f = "Some (TObj KFunction (Some (TStr KNumber)) None None)"
  let ?g = "Some (TObj KFunction None (Some [(None, Some (TStr KString))]) None)"
  let ?a = "Some (TObj KArray None None (Some (TStr KString)))"
  let ?b = "Some (TObj KArray None None (Some (TList [TStr KNumber, TStr KString])))"
  have le: "(2::nat) \<le> 3" "(1::nat) \<le> 3" "(3::nat) \<le> 3" by simp_all
  have u0: "formatType ?u 0 = ''number | string''" by (simp add: formatType_eval)
  have f0: "formatType ?f 0 = ''function: number''" by (simp add: formatType_eval)
  have g0: "formatType ?g 0 = ''function(:string)''" by (simp add: formatType_eval)
  have a0: "formatType ?a 0 = ''string[]''" by (simp add: formatType_eval)
  have tu: "precedence_lt (tier ?u) 2" "\<not> precedence_lt (tier ?u) 1"
    and tf: "precedence_lt (tier ?f) 3" "\<not> precedence_lt (tier ?f) 2"
    and tg: "\<not> precedence_lt (tier ?g) 3"
    and ta: "\<not> precedence_lt (tier ?a) 3"
    by (simp_all add: tier_def precedence_lt_def)
  have u2: "formatType ?u 2 = ''(number | string)''"
    using formatType_parentheses[of 2 ?u, THEN conjunct2, THEN conjunct1, rule_format, OF le(1)]
    by (simp only: tu u0 if_True append.simps)
  have u1: "formatType ?u 1 = ''number | string''"
    using formatType_parentheses[of 1 ?u, THEN conjunct2, THEN conjunct1, rule_format, OF le(2)]
    by (simp only: tu u0 if_False)
  have f3: "formatType ?f 3 = ''(function: number)''"
    using formatType_parentheses[of 3 ?f, THEN conjunct2, THEN conjunct1, rule_format, OF le(3)]
    by (simp only: tf f0 if_True append.simps)
  have f2: "formatType ?f 2 = ''function: number''"
    using formatType_parentheses[of 2 ?f, THEN conjunct2, THEN conjunct1, rule_format, OF le(1)]
    by (simp only: tf f0 if_False)
  have g3: "formatType ?g 3 = ''function(:string)''"
    using formatType_parentheses[of 3 ?g, THEN conjunct2, THEN conjunct1, rule_format, OF le(3)]
    by (simp only: tg g0 if_False)
  have a3: "formatType ?a 3 = ''string[]''"
    using formatType_parentheses[of 3 ?a, THEN conjunct2, THEN conjunct1, rule_format, OF le(3)]
    by (simp only: ta a0 if_False)
  have u3: "formatType ?u 3 = ''(number | string)''"
    using formatType_parentheses[of 3 ?u, THEN conjunct2, THEN conjunct1, rule_format, OF le(3)]
    by (simp add: u0 tier_def precedence_lt_def)
  have bk: "\<not> isUnion ?b \<and> getKind ?b = Some (GK KArray) \<and> elements ?b \<noteq> None" by simp
  have b0: "formatType ?b 0 = ''(number | string)[]''"
    using formatType_parentheses[of 0 ?b, THEN conjunct2, THEN conjunct2, THEN conjunct2,
        THEN conjunct2, THEN conjunct2, rule_format, OF bk]
    by (simp add: u3)
  show ?thesis using u2 u1 f3 f2 g3 a3 b0 by (intro conjI)
qed
section \<open>Scope (the Scope class)\<close>

text \<open>
  A scope keeps its members in a plain JavaScript object (\<^verbatim>\<open>members = {}\<close> by
  default), read with \<^verbatim>\<open>this.members[name]\<close> and tested with
  \<^verbatim>\<open>name in this.members\<close>. Both go through the prototype chain of that object, so
  besides the own properties they see the properties every ordinary object inherits
  from \<^verbatim>\<open>Object.prototype\<close>. The own properties are a map from names to data;
  \<open>ObjectPrototype_names\<close> lists the inherited property names.
\<close>

definition ObjectPrototype_names :: "string list" where
  "ObjectPrototype_names =
     [''constructor'', ''__defineGetter__'', ''__defineSetter__'', ''hasOwnProperty'',
      ''__lookupGetter__'', ''__lookupSetter__'', ''isPrototypeOf'',
      ''propertyIsEnumerable'', ''toString'', ''valueOf'', ''__proto__'',
      ''toLocaleString'']"

text \<open>
  What a property read returns: a stored datum, or a built-in inherited from
  \<^verbatim>\<open>Object.prototype\<close> (a function object, or the prototype itself for
  \<^verbatim>\<open>__proto__\<close>; all of them truthy). \<open>None\<close> is undefined.
\<close>

datatype 'd ref = Obj 'd | Builtin string

text \<open>The operator \<^verbatim>\<open>n in m\<close> and the read \<^verbatim>\<open>m[n]\<close> on an ordinary object.\<close>

definition js_in :: "string \<Rightarrow> (string \<rightharpoonup> 'd) \<Rightarrow> bool" where
  "js_in n m = (m n \<noteq> None \<or> n \<in> set ObjectPrototype_names)"

definition js_get :: "(string \<rightharpoonup> 'd) \<Rightarrow> string \<Rightarrow> 'd ref option" where
  "js_get m n =
     (case m n of
        Some v \<Rightarrow> Some (Obj v)
      | None \<Rightarrow> if n \<in> set ObjectPrototype_names then Some (Builtin n) else None)"

text \<open>
  The fields of the class, in the order of the constructor's assignments. A scope
  holds its parent, so a scope value is the chain of scope objects from a scope up to
  its root; \<open>'d\<close> is the data kept for a member and \<open>'r\<close> the static
  \<^verbatim>\<open>this\<close> reference.
\<close>

datatype ('d, 'r) scope =
  Scope (parent: "('d, 'r) scope option") (strict: bool) (thisRef: "'r option")
        (topLevel: bool) (members: "string \<rightharpoonup> 'd")

text \<open>\<^verbatim>\<open>new Scope()\<close>: no parent, not strict, and top-level because it has no parent.\<close>

definition new_Scope :: "('d, 'r) scope" where
  "new_Scope = Scope None False None True Map.empty"

definition withMembers :: "(string \<rightharpoonup> 'd) \<Rightarrow> ('d, 'r) scope" where
  "withMembers m = Scope None False None False m"

definition createNested :: "('d, 'r) scope \<Rightarrow> ('d, 'r) scope" where
  "createNested s = Scope (Some s) (strict s) (thisRef s) False Map.empty"

definition getOwnMember :: "('d, 'r) scope \<Rightarrow> string \<Rightarrow> 'd ref option" where
  "getOwnMember s n = js_get (members s) n"

text \<open>
  \<^verbatim>\<open>addOwnMember(name, value)\<close> throws \<^verbatim>\<open>new Error(`'${name}' already defined`)\<close>
  when \<^verbatim>\<open>name in this.members\<close>; otherwise it stores the value and returns it. The
  scope after the call is returned with the value.
\<close>

definition addOwnMember ::
  "string \<Rightarrow> 'd \<Rightarrow> ('d, 'r) scope \<Rightarrow> error + ('d \<times> ('d, 'r) scope)" where
  "addOwnMember n v s =
     (if js_in n (members s) then
        Inl (Error (CHR 0x27 # n @ CHR 0x27 # '' already defined''))
      else
        Inr (v, Scope (parent s) (strict s) (thisRef s) (topLevel s) ((members s)(n \<mapsto> v))))"

text \<open>
  \<^verbatim>\<open>findMember(name)\<close> walks the parent links and returns the first member that is
  truthy; \<open>truthy\<close> says which data are.
\<close>

fun findMember :: "('d \<Rightarrow> bool) \<Rightarrow> ('d, 'r) scope \<Rightarrow> string \<Rightarrow> 'd ref option" where
  "findMember truthy (Scope p st th tlv m) n =
     (case js_get m n of
        Some (Obj v) \<Rightarrow>
          if truthy v then Some (Obj v)
          else (case p of None \<Rightarrow> None | Some ps \<Rightarrow> findMember truthy ps n)
      | Some (Builtin b) \<Rightarrow> Some (Builtin b)
      | None \<Rightarrow> (case p of None \<Rightarrow> None | Some ps \<Rightarrow> findMember truthy ps n))"

fun getRoot :: "('d, 'r) scope \<Rightarrow> ('d, 'r) scope" where
  "getRoot (Scope None st th tlv m) = Scope None st th tlv m"
| "getRoot (Scope (Some p) st th tlv m) = getRoot p"

fun getTopLevel :: "('d, 'r) scope \<Rightarrow> ('d, 'r) scope" where
  "getTopLevel (Scope None st th tlv m) = Scope None st th tlv m"
| "getTopLevel (Scope (Some p) st th tlv m) =
     (if tlv then Scope (Some p) st th tlv m else getTopLevel p)"

text \<open>
  A method called on \<^verbatim>\<open>scope.getRoot()\<close> or \<^verbatim>\<open>scope.getTopLevel()\<close> changes an ancestor
  that the scope still refers to: \<open>at_root f\<close> and \<open>at_topLevel f\<close> run \<open>f\<close> on that
  ancestor and put the changed ancestor back into the chain.
\<close>

fun at_root ::
  "(('d, 'r) scope \<Rightarrow> error + ('a \<times> ('d, 'r) scope)) \<Rightarrow> ('d, 'r) scope \<Rightarrow>
   error + ('a \<times> ('d, 'r) scope)" where
  "at_root f (Scope None st th tlv m) = f (Scope None st th tlv m)"
| "at_root f (Scope (Some p) st th tlv m) =
     (case at_root f p of
        Inl e \<Rightarrow> Inl e
      | Inr (x, p') \<Rightarrow> Inr (x, Scope (Some p') st th tlv m))"

fun at_topLevel ::
  "(('d, 'r) scope \<Rightarrow> error + ('a \<times> ('d, 'r) scope)) \<Rightarrow> ('d, 'r) scope \<Rightarrow>
   error + ('a \<times> ('d, 'r) scope)" where
  "at_topLevel f (Scope None st th tlv m) = f (Scope None st th tlv m)"
| "at_topLevel f (Scope (Some p) st th tlv m) =
     (if tlv then f (Scope (Some p) st th tlv m)
      else (case at_topLevel f p of
              Inl e \<Rightarrow> Inl e
            | Inr (x, p') \<Rightarrow> Inr (x, Scope (Some p') st th tlv m)))"

subsection \<open>Duplicate declarations\<close>

text \<open>
  For a name that \<^verbatim>\<open>Object.prototype\<close> does not define, \<open>addOwnMember\<close> throws
  exactly when the name is in the scope's own map, whatever the ancestors hold; when
  it does not throw it returns the value and the scope differs in that one member.
\<close>

lemma addOwnMember_other_names:
  assumes "n \<notin> set ObjectPrototype_names"
  shows "(\<exists>e. addOwnMember n v s = Inl e) \<longleftrightarrow> n \<in> dom (members s)"
    and "n \<notin> dom (members s) \<Longrightarrow>
         addOwnMember n v s =
           Inr (v, Scope (parent s) (strict s) (thisRef s) (topLevel s) ((members s)(n \<mapsto> v)))"
    and "n \<in> dom (members s) \<Longrightarrow>
         addOwnMember n v s = Inl (Error (CHR 0x27 # n @ CHR 0x27 # '' already defined''))"
  using assms by (auto simp: addOwnMember_def js_in_def)

text \<open>
  C8. In a fresh scope, whose own member map is empty and which has no ancestor,
  \<^verbatim>\<open>addOwnMember('toString', v)\<close> throws \<^verbatim>\<open>'toString' already defined\<close>: the test
  \<^verbatim>\<open>name in this.members\<close> finds the method inherited from \<^verbatim>\<open>Object.prototype\<close>.
\<close>

theorem addOwnMember_inherited_name_throws:
  "members (new_Scope :: ('d, 'r) scope) ''toString'' = None \<and>
   parent (new_Scope :: ('d, 'r) scope) = None \<and>
   addOwnMember ''toString'' v (new_Scope :: ('d, 'r) scope) =
     Inl (Error (CHR 0x27 # ''toString'' @ CHR 0x27 # '' already defined''))"
  by (simp add: new_Scope_def addOwnMember_def js_in_def ObjectPrototype_names_def)

section \<open>The abstract interpreter (src/analyze.mjs)\<close>

text \<open>
  Constant values of literals: \<^verbatim>\<open>undefined\<close>, \<^verbatim>\<open>null\<close>, booleans, numbers, strings and
  regular expressions (objects). Numbers are the integral ones; of a number the
  interpreter's logical operators only ask whether it is zero.
\<close>

datatype jsval = VUndefined | VNull | VBool bool | VNum int | VStr string | VRegExp string

fun js_truthy :: "jsval \<Rightarrow> bool" where
  "js_truthy VUndefined = False"
| "js_truthy VNull = False"
| "js_truthy (VBool b) = b"
| "js_truthy (VNum n) = (n \<noteq> 0)"
| "js_truthy (VStr s) = (s \<noteq> [])"
| "js_truthy (VRegExp r) = True"

text \<open>\<^verbatim>\<open>kindOf(v)\<close> of \<^verbatim>\<open>types.js\<close> on these values.\<close>

fun kindOf :: "jsval \<Rightarrow> kind" where
  "kindOf VUndefined = KUndefined"
| "kindOf VNull = KNull"
| "kindOf (VBool b) = KBoolean"
| "kindOf (VNum n) = KNumber"
| "kindOf (VStr s) = KString"
| "kindOf (VRegExp r) = KObject"

text \<open>
  An analysis object with the properties the visitors below read and write;
  \<open>ivalue = None\<close> means that the object has no \<^verbatim>\<open>value\<close> property
  (\<^verbatim>\<open>'value' in info\<close> is false). A visitor returns an analysis object, a built-in
  that a scope lookup found on \<^verbatim>\<open>Object.prototype\<close>, or undefined.
\<close>

record info =
  iname :: "string option"
  itype :: "ty option"
  ivalue :: "jsval option"

type_synonym analysis = "info ref option"

type_synonym 'r ascope = "(info, 'r) scope"

text \<open>
  \<^verbatim>\<open>'value' in l\<close>, \<^verbatim>\<open>l.value\<close> and \<^verbatim>\<open>l.type\<close>; the built-ins have neither property.
\<close>

definition has_value :: "info ref \<Rightarrow> bool" where
  "has_value l = (case l of Obj i \<Rightarrow> ivalue i \<noteq> None | Builtin b \<Rightarrow> False)"

definition value_of :: "info ref \<Rightarrow> jsval" where
  "value_of l =
     (case l of
        Obj i \<Rightarrow> (case ivalue i of Some v \<Rightarrow> v | None \<Rightarrow> VUndefined)
      | Builtin b \<Rightarrow> VUndefined)"

definition type_of :: "info ref \<Rightarrow> ty option" where
  "type_of l = (case l of Obj i \<Rightarrow> itype i | Builtin b \<Rightarrow> None)"

definition unionInfo :: "analysis \<Rightarrow> analysis \<Rightarrow> analysis" where
  "unionInfo a b =
     (case (a, b) of
        (Some x, Some y) \<Rightarrow>
          Some (Obj \<lparr>iname = None,
                     itype = (if type_of x \<noteq> None \<and> type_of y \<noteq> None
                              then union (type_of x) (type_of y) else None),
                     ivalue = None\<rparr>)
      | _ \<Rightarrow> None)"

text \<open>The assignment \<^verbatim>\<open>result.value = v\<close> on the object \<^verbatim>\<open>unionInfo\<close> has just made.\<close>

definition set_value :: "jsval \<Rightarrow> analysis \<Rightarrow> analysis" where
  "set_value v r =
     (case r of Some (Obj i) \<Rightarrow> Some (Obj (i\<lparr>ivalue := Some v\<rparr>)) | _ \<Rightarrow> r)"

text \<open>
  The local function \<^verbatim>\<open>evaluate(op, shortOp)\<close> of the \<^verbatim>\<open>LogicalExpression\<close> visitor,
  with the two analyses it closes over, and the switch on the operator that calls it.
  An operator other than \<^verbatim>\<open>||\<close> and \<^verbatim>\<open>&&\<close> leaves the result undefined.
\<close>

definition logical_evaluate ::
  "(jsval \<Rightarrow> jsval \<Rightarrow> jsval) \<Rightarrow> (info ref \<Rightarrow> bool) \<Rightarrow> analysis \<Rightarrow> analysis \<Rightarrow> analysis" where
  "logical_evaluate op shortOp leftInfo rightInfo =
     (case leftInfo of
        Some l \<Rightarrow>
          if shortOp l then leftInfo
          else (case rightInfo of
                  Some r \<Rightarrow>
                    if has_value l \<and> has_value r
                    then set_value (op (value_of l) (value_of r)) (unionInfo leftInfo rightInfo)
                    else unionInfo leftInfo rightInfo
                | None \<Rightarrow> unionInfo leftInfo rightInfo)
      | None \<Rightarrow> unionInfo leftInfo rightInfo)"

definition LogicalExpression_result :: "string \<Rightarrow> analysis \<Rightarrow> analysis \<Rightarrow> analysis" where
  "LogicalExpression_result operator leftInfo rightInfo =
     (if operator = ''||'' then
        logical_evaluate (\<lambda>l r. if js_truthy l then l else r)
          (\<lambda>l. if has_value l then js_truthy (value_of l) else isTruthy (type_of l))
          leftInfo rightInfo
      else if operator = ''&&'' then
        logical_evaluate (\<lambda>l r. if js_truthy l then r else l)
          (\<lambda>l. if has_value l then \<not> js_truthy (value_of l) else isFalsy (type_of l))
          leftInfo rightInfo
      else None)"

definition ConditionalExpression_result :: "analysis \<Rightarrow> analysis \<Rightarrow> analysis \<Rightarrow> analysis" where
  "ConditionalExpression_result testInfo consequent alternate =
     (case testInfo of
        Some t \<Rightarrow>
          if has_value t then (if js_truthy (value_of t) then consequent else alternate)
          else unionInfo consequent alternate
      | None \<Rightarrow> unionInfo consequent alternate)"

text \<open>
  The \<^verbatim>\<open>Identifier\<close> visitor. \<^verbatim>\<open>declContext\<close> is undefined for a reference; the test
  \<^verbatim>\<open>!declContext\<close> also holds of the empty string. The scope data are analysis objects,
  all truthy. A new member \<^verbatim>\<open>{name}\<close> goes to the top-level scope for \<^verbatim>\<open>'var'\<close>, to
  the root for a reference, and to the given scope otherwise.
\<close>

definition falsy_string :: "string option \<Rightarrow> bool" where
  "falsy_string d = (d = None \<or> d = Some [])"

definition Identifier_visitor ::
  "string \<Rightarrow> 'r ascope \<Rightarrow> string option \<Rightarrow> error + (info ref \<times> 'r ascope)" where
  "Identifier_visitor n scope declContext =
     (case (if falsy_string declContext then findMember (\<lambda>_. True) scope n else None) of
        Some r \<Rightarrow> Inr (r, scope)
      | None \<Rightarrow>
          (case (if declContext = Some ''var'' then
                   at_topLevel
                     (addOwnMember n \<lparr>iname = Some n, itype = None, ivalue = None\<rparr>) scope
                 else if falsy_string declContext then
                   at_root
                     (addOwnMember n \<lparr>iname = Some n, itype = None, ivalue = None\<rparr>) scope
                 else addOwnMember n \<lparr>iname = Some n, itype = None, ivalue = None\<rparr> scope) of
             Inl e \<Rightarrow> Inl e
           | Inr (v, scope') \<Rightarrow> Inr (Obj v, scope')))"

text \<open>
  The nodes of the fragment of ESTree treated here: identifiers, literals, logical,
  conditional and sequence expressions, the \<^verbatim>\<open>with\<close> statement (which the interpreter
  refuses) and \<open>Unhandled t\<close>, a node whose type \<open>t\<close> has no entry in the table of
  visitors. The visitors of these nodes call \<^verbatim>\<open>visit(child, scope)\<close> with the scope
  they were given and no declaration context.
\<close>

datatype node =
    Identifier string
  | Literal jsval
  | LogicalExpression string node node
  | ConditionalExpression node node node
  | SequenceExpression "node list"
  | WithStatement
  | Unhandled string

text \<open>
  \<^verbatim>\<open>visit(ast, scope)\<close> returns the analysis and the scope chain after the visit;
  \<open>visit_each\<close> is the loop of the \<^verbatim>\<open>SequenceExpression\<close> visitor, which keeps
  the last analysis.
\<close>

fun visit :: "node \<Rightarrow> 'r ascope \<Rightarrow> error + (analysis \<times> 'r ascope)"
and visit_each :: "node list \<Rightarrow> analysis \<Rightarrow> 'r ascope \<Rightarrow> error + (analysis \<times> 'r ascope)" where
  "visit (Identifier n) scope =
     (case Identifier_visitor n scope None of
        Inl e \<Rightarrow> Inl e
      | Inr (r, scope') \<Rightarrow> Inr (Some r, scope'))"
| "visit (Literal v) scope =
     Inr (Some (Obj \<lparr>iname = None, itype = Some (TStr (kindOf v)), ivalue = Some v\<rparr>), scope)"
| "visit (LogicalExpression operator left right) scope =
     (case visit left scope of
        Inl e \<Rightarrow> Inl e
      | Inr (leftInfo, scope1) \<Rightarrow>
          (case visit right scope1 of
             Inl e \<Rightarrow> Inl e
           | Inr (rightInfo, scope2) \<Rightarrow>
               Inr (LogicalExpression_result operator leftInfo rightInfo, scope2)))"
| "visit (ConditionalExpression test consequent alternate) scope =
     (case visit test scope of
        Inl e \<Rightarrow> Inl e
      | Inr (testInfo, scope1) \<Rightarrow>
          (case visit consequent scope1 of
             Inl e \<Rightarrow> Inl e
           | Inr (c, scope2) \<Rightarrow>
               (case visit alternate scope2 of
                  Inl e \<Rightarrow> Inl e
                | Inr (a, scope3) \<Rightarrow>
                    Inr (ConditionalExpression_result testInfo c a, scope3))))"
| "visit (SequenceExpression expressions) scope = visit_each expressions None scope"
| "visit WithStatement scope =
     Inl (Error (CHR 0x27 # ''with'' @ CHR 0x27 # '' statement not supported''))"
| "visit (Unhandled t) scope =
     Inl (Error (''Unhandled AST node type '' @ CHR 0x27 # t @ [CHR 0x27]))"
| "visit_each [] lastInfo scope = Inr (lastInfo, scope)"
| "visit_each (e # es) lastInfo scope =
     (case visit e scope of
        Inl er \<Rightarrow> Inl er
      | Inr (i, scope') \<Rightarrow> visit_each es i scope')"

definition analyze :: "node \<Rightarrow> 'r ascope \<Rightarrow> error + (analysis \<times> 'r ascope)" where
  "analyze ast rootScope = visit ast rootScope"

text \<open>The names of the identifiers in a tree.\<close>

fun idents :: "node \<Rightarrow> string set" where
  "idents (Identifier n) = {n}"
| "idents (Literal v) = {}"
| "idents (LogicalExpression operator left right) = idents left \<union> idents right"
| "idents (ConditionalExpression test consequent alternate) =
     idents test \<union> idents consequent \<union> idents alternate"
| "idents (SequenceExpression expressions) = (\<Union>e \<in> set expressions. idents e)"
| "idents WithStatement = {}"
| "idents (Unhandled t) = {}"
subsection \<open>Lookups after a visit\<close>

text \<open>
  A visit only ever adds members, at the root and under names that no scope of the
  chain resolved; so a name that resolves before a visit resolves after it, and every
  identifier of a visited tree resolves afterwards.
\<close>

lemma js_get_upd_other: "n \<noteq> k \<Longrightarrow> js_get (m(k \<mapsto> v)) n = js_get m n"
  by (simp add: js_get_def)

lemma js_get_upd_same: "js_get (m(k \<mapsto> v)) k = Some (Obj v)"
  by (simp add: js_get_def)

lemma at_root_add_other:
  "at_root (addOwnMember k v) s = Inr (x, s') \<Longrightarrow> n \<noteq> k \<Longrightarrow>
   findMember tr s' n = findMember tr s n"
proof (induction "addOwnMember k v :: ('a, 'b) scope \<Rightarrow> _" s arbitrary: s' rule: at_root.induct)
  case (1 st th tlv m)
  then show ?case
    by (auto simp: addOwnMember_def js_get_upd_other split: if_splits)
next
  case (2 p st th tlv m)
  from 2(2) obtain p' where p': "at_root (addOwnMember k v) p = Inr (x, p')"
    and s': "s' = Scope (Some p') st th tlv m"
    by (auto split: sum.splits)
  have "findMember tr p' n = findMember tr p n" using 2(1)[OF p' 2(3)] .
  then show ?case using s' by (simp split: option.splits ref.splits)
qed

lemma at_root_add_same:
  "at_root (addOwnMember k v) s = Inr (x, s') \<Longrightarrow> tr v \<Longrightarrow> findMember tr s' k \<noteq> None"
proof (induction "addOwnMember k v :: ('a, 'b) scope \<Rightarrow> _" s arbitrary: s' rule: at_root.induct)
  case (1 st th tlv m)
  then show ?case
    by (auto simp: addOwnMember_def js_get_upd_same split: if_splits)
next
  case (2 p st th tlv m)
  from 2(2) obtain p' where p': "at_root (addOwnMember k v) p = Inr (x, p')"
    and s': "s' = Scope (Some p') st th tlv m"
    by (auto split: sum.splits)
  have "findMember tr p' k \<noteq> None" using 2(1)[OF p' 2(3)] .
  then show ?case using s' by (auto split: option.splits ref.splits)
qed

lemma Identifier_visitor_resolves:
  assumes "Identifier_visitor k s None = Inr (r, s')"
  shows "findMember (\<lambda>_. True) s' k \<noteq> None"
proof (cases "findMember (\<lambda>_. True) s k")
  case None
  then obtain v where "at_root (addOwnMember k \<lparr>iname = Some k, itype = None, ivalue = None\<rparr>) s = Inr (v, s')"
    using assms by (auto simp: Identifier_visitor_def falsy_string_def split: sum.splits)
  then show ?thesis by (rule at_root_add_same) simp
next
  case (Some a)
  then show ?thesis using assms by (simp add: Identifier_visitor_def falsy_string_def)
qed

lemma Identifier_visitor_keeps:
  assumes "Identifier_visitor k s None = Inr (r, s')"
    and "findMember (\<lambda>_. True) s n \<noteq> None"
  shows "findMember (\<lambda>_. True) s' n \<noteq> None"
proof (cases "findMember (\<lambda>_. True) s k")
  case None
  then obtain v where a: "at_root (addOwnMember k \<lparr>iname = Some k, itype = None, ivalue = None\<rparr>) s = Inr (v, s')"
    using assms(1) by (auto simp: Identifier_visitor_def falsy_string_def split: sum.splits)
  have "n \<noteq> k" using None assms(2) by auto
  then show ?thesis using at_root_add_other[OF a] assms(2) by simp
next
  case (Some a)
  then show ?thesis using assms by (simp add: Identifier_visitor_def falsy_string_def)
qed

lemma visit_keeps:
  "visit e s = Inr (r, s') \<Longrightarrow> findMember (\<lambda>_. True) s n \<noteq> None \<Longrightarrow>
     findMember (\<lambda>_. True) s' n \<noteq> None"
  "visit_each es l s = Inr (r, s') \<Longrightarrow> findMember (\<lambda>_. True) s n \<noteq> None \<Longrightarrow>
     findMember (\<lambda>_. True) s' n \<noteq> None"
proof (induction e s and es l s arbitrary: r s' and r s' rule: visit_visit_each.induct)
  case (1 k scope)
  then show ?case
    by (auto split: sum.splits dest: Identifier_visitor_keeps)
next
  case (2 v scope)
  then show ?case by simp
next
  case (3 operator left right scope)
  from 3(3) obtain li s1 ri where a: "visit left scope = Inr (li, s1)"
    and b: "visit right s1 = Inr (ri, s')"
    by (auto split: sum.splits)
  have "findMember (\<lambda>_. True) s1 n \<noteq> None" using 3(1)[OF a 3(4)] .
  then show ?case using 3(2)[OF a refl b] by simp
next
  case (4 test consequent alternate scope)
  from 4(4) obtain ti s1 ci s2 ai where a: "visit test scope = Inr (ti, s1)"
    and b: "visit consequent s1 = Inr (ci, s2)"
    and c: "visit alternate s2 = Inr (ai, s')"
    by (auto split: sum.splits)
  have "findMember (\<lambda>_. True) s1 n \<noteq> None" using 4(1)[OF a 4(5)] .
  then have "findMember (\<lambda>_. True) s2 n \<noteq> None" using 4(2)[OF a refl b] by simp
  then show ?case using 4(3)[OF a refl b refl c] by simp
next
  case (5 expressions scope)
  then show ?case by simp
next
  case (6 scope)
  then show ?case by simp
next
  case (7 t scope)
  then show ?case by simp
next
  case (8 lastInfo scope)
  then show ?case by simp
next
  case (9 e es lastInfo scope)
  from 9(3) obtain i s1 where a: "visit e scope = Inr (i, s1)"
    and b: "visit_each es i s1 = Inr (r, s')"
    by (auto split: sum.splits)
  have "findMember (\<lambda>_. True) s1 n \<noteq> None" using 9(1)[OF a 9(4)] .
  then show ?case using 9(2)[OF a refl b] by simp
qed

lemma visit_resolves:
  "visit e s = Inr (r, s') \<Longrightarrow> n \<in> idents e \<Longrightarrow> findMember (\<lambda>_. True) s' n \<noteq> None"
  "visit_each es l s = Inr (r, s') \<Longrightarrow> n \<in> (\<Union>e \<in> set es. idents e) \<Longrightarrow>
     findMember (\<lambda>_. True) s' n \<noteq> None"
proof (induction e s and es l s arbitrary: r s' and r s' rule: visit_visit_each.induct)
  case (1 k scope)
  then show ?case
    by (auto split: sum.splits dest: Identifier_visitor_resolves)
next
  case (2 v scope)
  then show ?case by simp
next
  case (3 operator left right scope)
  from 3(3) obtain li s1 ri where a: "visit left scope = Inr (li, s1)"
    and b: "visit right s1 = Inr (ri, s')"
    by (auto split: sum.splits)
  show ?case
  proof (cases "n \<in> idents right")
    case True
    then show ?thesis using 3(2)[OF a refl b] by simp
  next
    case False
    then have "n \<in> idents left" using 3(4) by simp
    then have "findMember (\<lambda>_. True) s1 n \<noteq> None" using 3(1)[OF a] by simp
    then show ?thesis using visit_keeps(1)[OF b] by simp
  qed
next
  case (4 test consequent alternate scope)
  from 4(4) obtain ti s1 ci s2 ai where a: "visit test scope = Inr (ti, s1)"
    and b: "visit consequent s1 = Inr (ci, s2)"
    and c: "visit alternate s2 = Inr (ai, s')"
    by (auto split: sum.splits)
  consider "n \<in> idents alternate" | "n \<in> idents consequent" | "n \<in> idents test"
    using 4(5) by auto
  then show ?case
  proof cases
    case 1
    then show ?thesis using 4(3)[OF a refl b refl c] by simp
  next
    case 2
    then have "findMember (\<lambda>_. True) s2 n \<noteq> None" using 4(2)[OF a refl b] by simp
    then show ?thesis using visit_keeps(1)[OF c] by simp
  next
    case 3
    then have "findMember (\<lambda>_. True) s1 n \<noteq> None" using 4(1)[OF a] by simp
    then have "findMember (\<lambda>_. True) s2 n \<noteq> None" using visit_keeps(1)[OF b] by simp
    then show ?thesis using visit_keeps(1)[OF c] by simp
  qed
next
  case (5 expressions scope)
  then show ?case by simp
next
  case (6 scope)
  then show ?case by simp
next
  case (7 t scope)
  then show ?case by simp
next
  case (8 lastInfo scope)
  then show ?case by simp
next
  case (9 e es lastInfo scope)
  from 9(3) obtain i s1 where a: "visit e scope = Inr (i, s1)"
    and b: "visit_each es i s1 = Inr (r, s')"
    by (auto split: sum.splits)
  show ?case
  proof (cases "n \<in> (\<Union>e \<in> set es. idents e)")
    case True
    then show ?thesis using 9(2)[OF a refl b] by simp
  next
    case False
    then have "n \<in> idents e" using 9(4) by simp
    then have "findMember (\<lambda>_. True) s1 n \<noteq> None" using 9(1)[OF a] by simp
    then show ?thesis using visit_keeps(2)[OF b] by simp
  qed
qed

subsection \<open>The right operand is always visited\<close>

text \<open>
  C10. Once the left operand of a logical expression has been visited, the right
  operand is visited in the scope that visit left behind, whatever the operator and
  whatever the left analysis is: if the visit of the right operand throws, so does
  the visit of the expression; if it returns, the expression's visit returns the scope
  chain the right operand's visit produced, in which every identifier of the right
  operand resolves. The witness is \<^verbatim>\<open>null && x\<close> in a fresh root scope: the result is
  the left operand's analysis and the root has the member \<^verbatim>\<open>x\<close>.
\<close>

theorem LogicalExpression_visits_right_operand:
  assumes "visit left scope = Inr (leftInfo, scope1)"
  shows "(\<forall>e. visit right scope1 = Inl e \<longrightarrow>
            visit (LogicalExpression operator left right) scope = Inl e) \<and>
         (\<forall>rightInfo scope2. visit right scope1 = Inr (rightInfo, scope2) \<longrightarrow>
            visit (LogicalExpression operator left right) scope =
              Inr (LogicalExpression_result operator leftInfo rightInfo, scope2) \<and>
            (\<forall>n \<in> idents right. findMember (\<lambda>_. True) scope2 n \<noteq> None))"
  using assms by (auto dest: visit_resolves(1))

theorem LogicalExpression_visits_right_operand_witness:
  "analyze (LogicalExpression ''&&'' (Literal VNull) (Identifier ''x'')) (new_Scope :: unit ascope) =
     Inr (Some (Obj \<lparr>iname = None, itype = Some (TStr KNull), ivalue = Some VNull\<rparr>),
          Scope None False None True
            [''x'' \<mapsto> \<lparr>iname = Some ''x'', itype = None, ivalue = None\<rparr>]) \<and>
   findMember (\<lambda>_. True)
     (Scope None False None True
            [''x'' \<mapsto> \<lparr>iname = Some ''x'', itype = None, ivalue = None\<rparr>] :: unit ascope) ''x'' \<noteq> None"
proof -
  let ?s = "new_Scope :: unit ascope"
  let ?s2 = "Scope None False None True
            [''x'' \<mapsto> \<lparr>iname = Some ''x'', itype = None, ivalue = None\<rparr>] :: unit ascope"
  have a: "visit (Literal VNull) ?s =
      Inr (Some (Obj \<lparr>iname = None, itype = Some (TStr KNull), ivalue = Some VNull\<rparr>), ?s)"
    by simp
  have b: "visit (Identifier ''x'') ?s =
      Inr (Some (Obj \<lparr>iname = Some ''x'', itype = None, ivalue = None\<rparr>), ?s2)"
    by (simp add: Identifier_visitor_def falsy_string_def new_Scope_def js_get_def
        addOwnMember_def js_in_def ObjectPrototype_names_def)
  have c: "LogicalExpression_result ''&&''
      (Some (Obj \<lparr>iname = None, itype = Some (TStr KNull), ivalue = Some VNull\<rparr>))
      (Some (Obj \<lparr>iname = Some ''x'', itype = None, ivalue = None\<rparr>)) =
      Some (Obj \<lparr>iname = None, itype = Some (TStr KNull), ivalue = Some VNull\<rparr>)"
    by (simp add: LogicalExpression_result_def logical_evaluate_def has_value_def value_of_def)
  have "visit (LogicalExpression ''&&'' (Literal VNull) (Identifier ''x'')) ?s =
      Inr (Some (Obj \<lparr>iname = None, itype = Some (TStr KNull), ivalue = Some VNull\<rparr>), ?s2) \<and>
      (\<forall>n \<in> idents (Identifier ''x''). findMember (\<lambda>_. True) ?s2 n \<noteq> None)"
    using LogicalExpression_visits_right_operand[OF a, of "Identifier ''x''" "''&&''"] b c
    by simp
  then show ?thesis by (simp add: analyze_def)
qed

section \<open>Logical expressions over analysis objects that later visits change\<close>

text \<open>
  In the interpreter an analysis is a JavaScript object, and a visitor may write to an
  object that an earlier visit returned: the \<^verbatim>\<open>CallExpression\<close> visitor sets the \<^verbatim>\<open>type\<close>
  of its callee's analysis to \<^verbatim>\<open>'function'\<close>, the \<^verbatim>\<open>MemberExpression\<close> visitor sets
  \<^verbatim>\<open>type\<close> and \<^verbatim>\<open>members\<close> of its object's analysis. The \<^verbatim>\<open>LogicalExpression\<close> visitor
  visits both operands before it looks at the left analysis, so what it reads is the
  left object as the visit of the right operand left it. Here an analysis is a
  reference, and the state carries the properties of every object.

  A reference is \<open>Obj a\<close> for the analysis object with address \<open>a\<close>, or \<open>Builtin n\<close>
  for what a scope lookup finds under an inherited name \<open>n\<close>. The state holds the
  scope chain, the own properties \<^verbatim>\<open>name\<close>, \<^verbatim>\<open>type\<close> and \<^verbatim>\<open>value\<close> of every object
  (\<open>None\<close>: no such own property), and the next unused address.
\<close>

type_synonym addr = nat

record 'r astate =
  scope_chain :: "(addr, 'r) scope"
  own_props :: "addr ref \<Rightarrow> info"
  fresh :: addr

definition no_fields :: info where
  "no_fields = \<lparr>iname = None, itype = None, ivalue = None\<rparr>"

definition new_state :: "(addr, 'r) scope \<Rightarrow> 'r astate" where
  "new_state scope = \<lparr>scope_chain = scope, own_props = (\<lambda>r. no_fields), fresh = 0\<rparr>"

text \<open>
  A property read \<^verbatim>\<open>l.type\<close> or \<^verbatim>\<open>l.value\<close>, and the test \<^verbatim>\<open>'value' in l\<close>, go through
  the prototype chain: an own property first, then the property of
  \<^verbatim>\<open>Object.prototype\<close>, which is the object a scope lookup of \<^verbatim>\<open>__proto__\<close> returns and
  which every analysis object and every built-in function inherits from.
\<close>

definition inherit :: "'a option \<Rightarrow> 'a option \<Rightarrow> 'a option" where
  "inherit own proto = (case own of Some v \<Rightarrow> Some v | None \<Rightarrow> proto)"

definition props :: "'r astate \<Rightarrow> addr ref \<Rightarrow> info" where
  "props st r =
     (if r = Builtin ''__proto__'' then own_props st r
      else \<lparr>iname = inherit (iname (own_props st r)) (iname (own_props st (Builtin ''__proto__''))),
            itype = inherit (itype (own_props st r)) (itype (own_props st (Builtin ''__proto__''))),
            ivalue = inherit (ivalue (own_props st r)) (ivalue (own_props st (Builtin ''__proto__'')))\<rparr>)"

text \<open>An object literal: a new object with the given own properties.\<close>

definition new_object :: "info \<Rightarrow> 'r astate \<Rightarrow> addr ref \<times> 'r astate" where
  "new_object i st =
     (Obj (fresh st),
      st\<lparr>own_props := (own_props st)(Obj (fresh st) := i), fresh := Suc (fresh st)\<rparr>)"

text \<open>The assignments \<^verbatim>\<open>r.type = t\<close> and \<^verbatim>\<open>r.value = v\<close>.\<close>

definition set_type :: "addr ref \<Rightarrow> ty \<Rightarrow> 'r astate \<Rightarrow> 'r astate" where
  "set_type r t st = st\<lparr>own_props := (own_props st)(r := (own_props st r)\<lparr>itype := Some t\<rparr>)\<rparr>"

definition set_ivalue :: "addr ref \<Rightarrow> jsval \<Rightarrow> 'r astate \<Rightarrow> 'r astate" where
  "set_ivalue r v st = st\<lparr>own_props := (own_props st)(r := (own_props st r)\<lparr>ivalue := Some v\<rparr>)\<rparr>"

text \<open>
  \<^verbatim>\<open>unionInfo(a, b)\<close>: undefined unless both analyses are there; otherwise a new object,
  with the union of the two types when both have one.
\<close>

definition unionInfo_store ::
  "addr ref option \<Rightarrow> addr ref option \<Rightarrow> 'r astate \<Rightarrow> addr ref option \<times> 'r astate" where
  "unionInfo_store a b st =
     (case a of
        None \<Rightarrow> (None, st)
      | Some x \<Rightarrow>
          (case b of
             None \<Rightarrow> (None, st)
           | Some y \<Rightarrow>
               (case new_object
                       \<lparr>iname = None,
                        itype = (if itype (props st x) \<noteq> None \<and> itype (props st y) \<noteq> None
                                 then union (itype (props st x)) (itype (props st y))
                                 else None),
                        ivalue = None\<rparr> st of
                  (r, st') \<Rightarrow> (Some r, st'))))"

text \<open>
  The local function \<^verbatim>\<open>evaluate(op, shortOp)\<close> of the \<^verbatim>\<open>LogicalExpression\<close> visitor, in
  the state that the visit of the right operand returned, and the switch on the
  operator that calls it. An operator other than \<^verbatim>\<open>||\<close> and \<^verbatim>\<open>&&\<close> leaves the result
  undefined. The object \<^verbatim>\<open>unionInfo\<close> makes is new, hence none of the operands'
  analyses: their \<^verbatim>\<open>value\<close> properties are the same before and after it is made.
\<close>

definition evaluate_store ::
  "(jsval \<Rightarrow> jsval \<Rightarrow> jsval) \<Rightarrow> (info \<Rightarrow> bool) \<Rightarrow> addr ref option \<Rightarrow> addr ref option \<Rightarrow>
   'r astate \<Rightarrow> addr ref option \<times> 'r astate" where
  "evaluate_store op shortOp leftInfo rightInfo st =
     (if (case leftInfo of Some l \<Rightarrow> shortOp (props st l) | None \<Rightarrow> False) then (leftInfo, st)
      else
        (case unionInfo_store leftInfo rightInfo st of
           (result, st') \<Rightarrow>
             (case (leftInfo, rightInfo, result) of
                (Some l, Some r, Some res) \<Rightarrow>
                  (case (ivalue (props st l), ivalue (props st r)) of
                     (Some lv, Some rv) \<Rightarrow> (result, set_ivalue res (op lv rv) st')
                   | _ \<Rightarrow> (result, st'))
              | _ \<Rightarrow> (result, st'))))"

definition LogicalExpression_evaluate ::
  "string \<Rightarrow> addr ref option \<Rightarrow> addr ref option \<Rightarrow> 'r astate \<Rightarrow> addr ref option \<times> 'r astate"
  where
  "LogicalExpression_evaluate operator leftInfo rightInfo st =
     (if operator = ''||'' then
        evaluate_store (\<lambda>l r. if js_truthy l then l else r)
          (\<lambda>l. case ivalue l of Some v \<Rightarrow> js_truthy v | None \<Rightarrow> isTruthy (itype l))
          leftInfo rightInfo st
      else if operator = ''&&'' then
        evaluate_store (\<lambda>l r. if js_truthy l then r else l)
          (\<lambda>l. case ivalue l of Some v \<Rightarrow> \<not> js_truthy v | None \<Rightarrow> isFalsy (itype l))
          leftInfo rightInfo st
      else (None, st))"

text \<open>
  The \<^verbatim>\<open>LogicalExpression\<close> visitor, for any function \<open>visit\<close> that visits the operands:
  whatever the visitors of the operands are and whatever they write.
\<close>

definition LogicalExpression_visitor ::
  "('n \<Rightarrow> 'r astate \<Rightarrow> error + (addr ref option \<times> 'r astate)) \<Rightarrow> string \<Rightarrow> 'n \<Rightarrow> 'n \<Rightarrow>
   'r astate \<Rightarrow> error + (addr ref option \<times> 'r astate)" where
  "LogicalExpression_visitor visit' operator left right st =
     (case visit' left st of
        Inl e \<Rightarrow> Inl e
      | Inr (leftInfo, st1) \<Rightarrow>
          (case visit' right st1 of
             Inl e \<Rightarrow> Inl e
           | Inr (rightInfo, st2) \<Rightarrow>
               Inr (LogicalExpression_evaluate operator leftInfo rightInfo st2)))"

text \<open>
  The \<^verbatim>\<open>Identifier\<close> visitor for a reference (no declaration context): the member found
  along the scope chain, or else a new object \<^verbatim>\<open>{name}\<close> added to the root scope.
\<close>

definition Identifier_store :: "string \<Rightarrow> 'r astate \<Rightarrow> error + (addr ref \<times> 'r astate)" where
  "Identifier_store n st =
     (case findMember (\<lambda>a. True) (scope_chain st) n of
        Some r \<Rightarrow> Inr (r, st)
      | None \<Rightarrow>
          (case new_object \<lparr>iname = Some n, itype = None, ivalue = None\<rparr> st of
             (r, st') \<Rightarrow>
               (case at_root (addOwnMember n (fresh st)) (scope_chain st) of
                  Inl e \<Rightarrow> Inl e
                | Inr (v, scope') \<Rightarrow> Inr (r, st'\<lparr>scope_chain := scope'\<rparr>))))"

text \<open>
  A fragment with a visitor that writes: identifiers, literals, logical expressions
  and calls. \<open>visit_arguments\<close> is the loop of the \<^verbatim>\<open>CallExpression\<close> visitor over the
  arguments; that visitor returns nothing.
\<close>

datatype snode =
    SIdentifier string
  | SLiteral jsval
  | SLogicalExpression string snode snode
  | SCallExpression snode "snode list"

fun visit_store :: "snode \<Rightarrow> 'r astate \<Rightarrow> error + (addr ref option \<times> 'r astate)"
and visit_arguments :: "snode list \<Rightarrow> 'r astate \<Rightarrow> error + 'r astate" where
  "visit_store (SIdentifier n) st =
     (case Identifier_store n st of
        Inl e \<Rightarrow> Inl e
      | Inr (r, st') \<Rightarrow> Inr (Some r, st'))"
| "visit_store (SLiteral v) st =
     (case new_object \<lparr>iname = None, itype = Some (TStr (kindOf v)), ivalue = Some v\<rparr> st of
        (r, st') \<Rightarrow> Inr (Some r, st'))"
| "visit_store (SLogicalExpression operator left right) st =
     (case visit_store left st of
        Inl e \<Rightarrow> Inl e
      | Inr (leftInfo, st1) \<Rightarrow>
          (case visit_store right st1 of
             Inl e \<Rightarrow> Inl e
           | Inr (rightInfo, st2) \<Rightarrow>
               Inr (LogicalExpression_evaluate operator leftInfo rightInfo st2)))"
| "visit_store (SCallExpression callee arguments) st =
     (case visit_store callee st of
        Inl e \<Rightarrow> Inl e
      | Inr (funcInfo, st1) \<Rightarrow>
          (case visit_arguments arguments
                  (case funcInfo of Some f \<Rightarrow> set_type f (TStr KFunction) st1 | None \<Rightarrow> st1) of
             Inl e \<Rightarrow> Inl e
           | Inr st2 \<Rightarrow> Inr (None, st2)))"
| "visit_arguments [] st = Inr st"
| "visit_arguments (arg # args) st =
     (case visit_store arg st of
        Inl e \<Rightarrow> Inl e
      | Inr (i, st') \<Rightarrow> visit_arguments args st')"

text \<open>
  \<^verbatim>\<open>analyze(ast)\<close> with a fresh root scope, and what the caller sees of the result: the
  reference and the properties of the object it refers to.
\<close>

definition analyze_store :: "snode \<Rightarrow> 'r astate \<Rightarrow> error + (addr ref option \<times> 'r astate)" where
  "analyze_store ast st = visit_store ast st"

definition seen :: "error + (addr ref option \<times> 'r astate) \<Rightarrow> error + (addr ref \<times> info) option" where
  "seen res =
     (case res of
        Inl e \<Rightarrow> Inl e
      | Inr (None, st) \<Rightarrow> Inr None
      | Inr (Some r, st) \<Rightarrow> Inr (Some (r, props st r)))"

text \<open>
  When the left operand's analysis decides the result, as the visitor tests it: by
  the constant value when there is one, by the type only when there is none.
\<close>

definition left_determines :: "string \<Rightarrow> info \<Rightarrow> bool" where
  "left_determines operator l =
     (if operator = ''&&'' then
        (case ivalue l of Some v \<Rightarrow> \<not> js_truthy v | None \<Rightarrow> isFalsy (itype l))
      else
        (case ivalue l of Some v \<Rightarrow> js_truthy v | None \<Rightarrow> isTruthy (itype l)))"

text \<open>
  The same as C5 words it: a known-falsy (known-truthy) constant value, or an
  always-falsy (always-truthy) type.
\<close>

definition claimed_left_determines :: "string \<Rightarrow> info \<Rightarrow> bool" where
  "claimed_left_determines operator l =
     (if operator = ''&&'' then
        (case ivalue l of Some v \<Rightarrow> \<not> js_truthy v | None \<Rightarrow> False) \<or> isFalsy (itype l)
      else
        (case ivalue l of Some v \<Rightarrow> js_truthy v | None \<Rightarrow> False) \<or> isTruthy (itype l))"

text \<open>The JavaScript operators \<^verbatim>\<open>l && r\<close> and \<^verbatim>\<open>l || r\<close> on values.\<close>

definition logical_op :: "string \<Rightarrow> jsval \<Rightarrow> jsval \<Rightarrow> jsval" where
  "logical_op operator l r =
     (if operator = ''&&'' then (if js_truthy l then r else l)
      else (if js_truthy l then l else r))"

text \<open>
  The new object a logical expression returns when the left operand does not decide:
  the union of the two types when both operands have a type, and the value of the
  operator when both have a value.
\<close>

definition merged :: "string \<Rightarrow> info \<Rightarrow> info \<Rightarrow> info" where
  "merged operator l r =
     \<lparr>iname = None,
      itype = (if itype l \<noteq> None \<and> itype r \<noteq> None then union (itype l) (itype r) else None),
      ivalue = (case (ivalue l, ivalue r) of
                  (Some lv, Some rv) \<Rightarrow> Some (logical_op operator lv rv)
                | _ \<Rightarrow> None)\<rparr>"

text \<open>
  The state the interpreter leaves behind after \<^verbatim>\<open>var x = null; x()\<close> in a fresh root
  scope: the declaration copies type and value of the initializer into the analysis of
  \<^verbatim>\<open>x\<close>, and the call sets its type to \<^verbatim>\<open>'function'\<close>.
\<close>

definition x_called :: "unit astate" where
  "x_called =
     \<lparr>scope_chain = Scope None False None True [''x'' \<mapsto> 0],
      own_props = (\<lambda>r. no_fields)
        (Obj 0 := \<lparr>iname = Some ''x'', itype = Some (TStr KFunction), ivalue = Some VNull\<rparr>),
      fresh = 1\<rparr>"

subsection \<open>The analysis of a logical expression\<close>

lemma set_ivalue_new_object:
  "set_ivalue (fst (new_object i st)) v (snd (new_object i st)) =
     snd (new_object (i\<lparr>ivalue := Some v\<rparr>) st)"
  by (simp add: set_ivalue_def new_object_def)

lemma fst_new_object: "fst (new_object i st) = Obj (fresh st)"
  by (simp add: new_object_def)

lemma evaluate_store_eq:
  assumes "\<And>i. shortOp i = left_determines operator i"
    and "\<And>a b. op a b = logical_op operator a b"
  shows "evaluate_store op shortOp leftInfo rightInfo st =
     (case leftInfo of
        None \<Rightarrow> (None, st)
      | Some l \<Rightarrow>
          if left_determines operator (props st l) then (Some l, st)
          else (case rightInfo of
                  None \<Rightarrow> (None, st)
                | Some r \<Rightarrow>
                    (case new_object (merged operator (props st l) (props st r)) st of
                       (res, st') \<Rightarrow> (Some res, st'))))"
proof (cases leftInfo)
  case None
  then show ?thesis by (simp add: evaluate_store_def unionInfo_store_def)
next
  case (Some l)
  show ?thesis
  proof (cases "left_determines operator (props st l)")
    case True
    then show ?thesis using Some assms(1) by (simp add: evaluate_store_def)
  next
    case nd: False
    show ?thesis
    proof (cases rightInfo)
      case None
      then show ?thesis using Some nd assms(1) by (simp add: evaluate_store_def unionInfo_store_def)
    next
      case r: (Some r)
      let ?i = "\<lparr>iname = None,
                 itype = (if itype (props st l) \<noteq> None \<and> itype (props st r) \<noteq> None
                          then union (itype (props st l)) (itype (props st r)) else None),
                 ivalue = None\<rparr>"
      have u: "unionInfo_store leftInfo rightInfo st =
          (Some (fst (new_object ?i st)), snd (new_object ?i st))"
        using Some r by (simp add: unionInfo_store_def split: prod.splits)
      show ?thesis
      proof (cases "ivalue (props st l)")
        case None
        then have m: "merged operator (props st l) (props st r) = ?i"
          by (simp add: merged_def)
        show ?thesis
          using Some r nd assms(1) None unfolding evaluate_store_def u
          by (simp add: new_object_def merged_def)
      next
        case lv: (Some lv)
        show ?thesis
        proof (cases "ivalue (props st r)")
          case None
          then have m: "merged operator (props st l) (props st r) = ?i"
            using lv by (simp add: merged_def)
          show ?thesis
            using Some r nd assms(1) None lv unfolding evaluate_store_def u
            by (simp add: new_object_def merged_def)
        next
          case rv: (Some rv)
          have m: "merged operator (props st l) (props st r) =
              ?i\<lparr>ivalue := Some (logical_op operator lv rv)\<rparr>"
            using lv rv by (simp add: merged_def)
          show ?thesis
            using Some r nd assms lv rv unfolding evaluate_store_def u
            by (simp add: set_ivalue_new_object) (simp add: new_object_def merged_def)
        qed
      qed
    qed
  qed
qed

lemma LogicalExpression_evaluate_eq:
  assumes "operator = ''&&'' \<or> operator = ''||''"
  shows "LogicalExpression_evaluate operator leftInfo rightInfo st =
     (case leftInfo of
        None \<Rightarrow> (None, st)
      | Some l \<Rightarrow>
          if left_determines operator (props st l) then (Some l, st)
          else (case rightInfo of
                  None \<Rightarrow> (None, st)
                | Some r \<Rightarrow>
                    (case new_object (merged operator (props st l) (props st r)) st of
                       (res, st') \<Rightarrow> (Some res, st'))))"
proof -
  have a: "operator = ''&&'' \<Longrightarrow> ?thesis"
    unfolding LogicalExpression_evaluate_def
    by (simp, rule evaluate_store_eq) (simp_all add: left_determines_def logical_op_def)
  have b: "operator = ''||'' \<Longrightarrow> ?thesis"
    unfolding LogicalExpression_evaluate_def
    by (simp, rule evaluate_store_eq) (simp_all add: left_determines_def logical_op_def)
  show ?thesis using assms a b by blast
qed

text \<open>
  C5, amended. The visitor of a logical expression first visits both operands, with
  whatever visitors they have. If both visits return and the operator is \<^verbatim>\<open>&&\<close> or
  \<^verbatim>\<open>||\<close>, then, reading the left analysis as it is after the visit of the right operand:
  \<^item> if the left analysis decides the result, the expression's analysis is that very
    object (for \<^verbatim>\<open>&&\<close>: it has a \<^verbatim>\<open>value\<close> and the value is falsy, or it has no \<^verbatim>\<open>value\<close>
    and its type is always falsy; for \<^verbatim>\<open>||\<close>: it has a \<^verbatim>\<open>value\<close> and the value is
    truthy, or it has no \<^verbatim>\<open>value\<close> and its type is always truthy);
  \<^item> otherwise, if both operands have an analysis, it is a new object whose type is the
    union of the two types when both are known (and absent otherwise) and which has
    a \<^verbatim>\<open>value\<close>, the operator applied to the two values, exactly when both operands
    have one;
  \<^item> otherwise it is undefined.

  The interpreter of the fragment visits a logical expression in this way. The witness
  is \<^verbatim>\<open>null && x\<close> in a fresh root scope, analyzed as the literal's
  \<^verbatim>\<open>{type: 'null', value: null}\<close>, and \<^verbatim>\<open>x || x()\<close>, analyzed as the object of \<^verbatim>\<open>x\<close> because
  the call has made its type \<^verbatim>\<open>'function'\<close>.
\<close>

theorem LogicalExpression_analysis:
  assumes "visit' left st = Inr (leftInfo, st1)"
    and "visit' right st1 = Inr (rightInfo, st2)"
    and "operator = ''&&'' \<or> operator = ''||''"
  shows "LogicalExpression_visitor visit' operator left right st =
     Inr (case leftInfo of
            None \<Rightarrow> (None, st2)
          | Some l \<Rightarrow>
              if left_determines operator (props st2 l) then (Some l, st2)
              else (case rightInfo of
                      None \<Rightarrow> (None, st2)
                    | Some r \<Rightarrow>
                        (case new_object (merged operator (props st2 l) (props st2 r)) st2 of
                           (res, st3) \<Rightarrow> (Some res, st3)))) \<and>
   visit_store (SLogicalExpression operator l' r') st' =
     LogicalExpression_visitor visit_store operator l' r' st'"
proof
  show "LogicalExpression_visitor visit' operator left right st =
     Inr (case leftInfo of
            None \<Rightarrow> (None, st2)
          | Some l \<Rightarrow>
              if left_determines operator (props st2 l) then (Some l, st2)
              else (case rightInfo of
                      None \<Rightarrow> (None, st2)
                    | Some r \<Rightarrow>
                        (case new_object (merged operator (props st2 l) (props st2 r)) st2 of
                           (res, st3) \<Rightarrow> (Some res, st3))))"
    unfolding LogicalExpression_visitor_def
    using assms(1,2) LogicalExpression_evaluate_eq[OF assms(3), of leftInfo rightInfo st2]
    by simp
  show "visit_store (SLogicalExpression operator l' r') st' =
     LogicalExpression_visitor visit_store operator l' r' st'"
    by (simp add: LogicalExpression_visitor_def)
qed

theorem LogicalExpression_analysis_witness:
  "seen (analyze_store (SLogicalExpression ''&&'' (SLiteral VNull) (SIdentifier ''x''))
           (new_state new_Scope :: unit astate)) =
     Inr (Some (Obj 0, \<lparr>iname = None, itype = Some (TStr KNull), ivalue = Some VNull\<rparr>)) \<and>
   seen (analyze_store
           (SLogicalExpression ''||'' (SIdentifier ''x'') (SCallExpression (SIdentifier ''x'') []))
           (new_state new_Scope :: unit astate)) =
     Inr (Some (Obj 0, \<lparr>iname = Some ''x'', itype = Some (TStr KFunction), ivalue = None\<rparr>))"
proof -
  let ?s0 = "new_state new_Scope :: unit astate"
  let ?null = "\<lparr>iname = None, itype = Some (TStr KNull), ivalue = Some VNull\<rparr>"
  let ?x = "\<lparr>iname = Some ''x'', itype = None, ivalue = None\<rparr>"
  let ?s1 = "\<lparr>scope_chain = new_Scope, own_props = (\<lambda>r. no_fields)(Obj 0 := ?null),
             fresh = Suc 0\<rparr> :: unit astate"
  let ?s2 = "\<lparr>scope_chain = Scope None False None True [''x'' \<mapsto> Suc 0],
             own_props = ((\<lambda>r. no_fields)(Obj 0 := ?null))(Obj (Suc 0) := ?x),
             fresh = Suc (Suc 0)\<rparr> :: unit astate"
  have l1: "visit_store (SLiteral VNull) ?s0 = Inr (Some (Obj 0), ?s1)"
    by (simp add: new_object_def new_state_def)
  have r1: "visit_store (SIdentifier ''x'') ?s1 = Inr (Some (Obj (Suc 0)), ?s2)"
    by (simp add: Identifier_store_def new_object_def new_Scope_def js_get_def
        addOwnMember_def js_in_def ObjectPrototype_names_def)
  have op1: "''&&'' = ''&&'' \<or> ''&&'' = ''||''" by simp
  note T1 = LogicalExpression_analysis[where visit'=visit_store and l'="SLiteral VNull"
      and r'="SIdentifier ''x''" and st'="?s0", OF l1 r1 op1]
  have d1: "left_determines ''&&'' (props ?s2 (Obj 0))"
    by (simp add: left_determines_def props_def inherit_def no_fields_def)
  have v1: "LogicalExpression_visitor visit_store ''&&'' (SLiteral VNull) (SIdentifier ''x'') ?s0 =
      Inr (Some (Obj 0), ?s2)"
    using T1[THEN conjunct1] d1
    by simp
  have a: "seen (analyze_store (SLogicalExpression ''&&'' (SLiteral VNull) (SIdentifier ''x''))
      ?s0) = Inr (Some (Obj 0, ?null))"
    unfolding analyze_store_def
      T1[THEN conjunct2] v1
    by (simp add: seen_def props_def inherit_def no_fields_def)
  let ?t1 = "\<lparr>scope_chain = Scope None False None True [''x'' \<mapsto> 0],
             own_props = (\<lambda>r. no_fields)(Obj 0 := ?x), fresh = Suc 0\<rparr> :: unit astate"
  let ?t2 = "\<lparr>scope_chain = Scope None False None True [''x'' \<mapsto> 0],
             own_props = (\<lambda>r. no_fields)
               (Obj 0 := \<lparr>iname = Some ''x'', itype = Some (TStr KFunction), ivalue = None\<rparr>),
             fresh = Suc 0\<rparr> :: unit astate"
  have l2: "visit_store (SIdentifier ''x'') ?s0 = Inr (Some (Obj 0), ?t1)"
    by (simp add: Identifier_store_def new_object_def new_state_def new_Scope_def js_get_def
        addOwnMember_def js_in_def ObjectPrototype_names_def)
  have r2: "visit_store (SCallExpression (SIdentifier ''x'') []) ?t1 = Inr (None, ?t2)"
    by (simp add: Identifier_store_def js_get_def set_type_def)
  have op2: "''||'' = ''&&'' \<or> ''||'' = ''||''" by simp
  note T2 = LogicalExpression_analysis[where visit'=visit_store and l'="SIdentifier ''x''"
      and r'="SCallExpression (SIdentifier ''x'') []" and st'="?s0", OF l2 r2 op2]
  have d2: "left_determines ''||'' (props ?t2 (Obj 0))"
    by (simp add: left_determines_def props_def inherit_def no_fields_def)
  have v2: "LogicalExpression_visitor visit_store ''||'' (SIdentifier ''x'')
      (SCallExpression (SIdentifier ''x'') []) ?s0 = Inr (Some (Obj 0), ?t2)"
    using T2[THEN conjunct1] d2
    by simp
  have b: "seen (analyze_store
      (SLogicalExpression ''||'' (SIdentifier ''x'') (SCallExpression (SIdentifier ''x'') []))
      ?s0) =
      Inr (Some (Obj 0, \<lparr>iname = Some ''x'', itype = Some (TStr KFunction), ivalue = None\<rparr>))"
    unfolding analyze_store_def
      T2[THEN conjunct2] v2
    by (simp add: seen_def props_def inherit_def no_fields_def)
  show ?thesis using a b by (rule conjI)
qed

text \<open>
  C5 as stated fails where the left operand has a known falsy value and an
  always-truthy type, as \<^verbatim>\<open>x\<close> has after \<^verbatim>\<open>var x = null; x()\<close>. Then \<^verbatim>\<open>x || 1\<close> is not
  analyzed as \<^verbatim>\<open>x\<close>: the value is consulted, the type is not, and the result is a new
  object with the union of the types and the value 1.
\<close>

theorem LogicalExpression_falsy_value_truthy_type:
  "seen (visit_store (SIdentifier ''x'') x_called) =
     Inr (Some (Obj 0,
       \<lparr>iname = Some ''x'', itype = Some (TStr KFunction), ivalue = Some VNull\<rparr>)) \<and>
   claimed_left_determines ''||''
     \<lparr>iname = Some ''x'', itype = Some (TStr KFunction), ivalue = Some VNull\<rparr> \<and>
   seen (analyze_store (SLogicalExpression ''||'' (SIdentifier ''x'') (SLiteral (VNum 1)))
           x_called) =
     Inr (Some (Obj 2,
       \<lparr>iname = None, itype = Some (TList [TStr KFunction, TStr KNumber]),
          ivalue = Some (VNum 1)\<rparr>))"
proof -
  let ?xi = "\<lparr>iname = Some ''x'', itype = Some (TStr KFunction), ivalue = Some VNull\<rparr>"
  let ?one = "\<lparr>iname = None, itype = Some (TStr KNumber), ivalue = Some (VNum 1)\<rparr>"
  let ?s1 = "\<lparr>scope_chain = Scope None False None True [''x'' \<mapsto> 0],
             own_props = ((\<lambda>r. no_fields)(Obj 0 := ?xi))(Obj (Suc 0) := ?one),
             fresh = Suc (Suc 0)\<rparr> :: unit astate"
  have l: "visit_store (SIdentifier ''x'') x_called = Inr (Some (Obj 0), x_called)"
    by (simp add: Identifier_store_def x_called_def js_get_def)
  have r: "visit_store (SLiteral (VNum 1)) x_called = Inr (Some (Obj (Suc 0)), ?s1)"
    by (simp add: new_object_def x_called_def)
  have pl: "props ?s1 (Obj 0) = ?xi"
    by (simp add: props_def inherit_def no_fields_def)
  have pr: "props ?s1 (Obj (Suc 0)) = ?one"
    by (simp add: props_def inherit_def no_fields_def)
  have nd: "\<not> left_determines ''||'' ?xi" by (simp add: left_determines_def)
  have m: "merged ''||'' ?xi ?one =
      \<lparr>iname = None, itype = Some (TList [TStr KFunction, TStr KNumber]),
         ivalue = Some (VNum 1)\<rparr>"
    by (simp add: merged_def logical_op_def union_eval)
  have e: "LogicalExpression_evaluate ''||'' (Some (Obj 0)) (Some (Obj (Suc 0))) ?s1 =
      (case new_object (merged ''||'' ?xi ?one) ?s1 of (res, st3) \<Rightarrow> (Some res, st3))"
    using LogicalExpression_evaluate_eq[of "''||''" "Some (Obj 0)" "Some (Obj (Suc 0))" ?s1] nd
    by (simp only: pl pr option.case if_False simp_thms)
  have a: "seen (visit_store (SIdentifier ''x'') x_called) = Inr (Some (Obj 0, ?xi))"
    unfolding l by (simp add: seen_def props_def inherit_def no_fields_def x_called_def)
  have c: "claimed_left_determines ''||'' ?xi" by (simp add: claimed_left_determines_def)
  have b: "seen (analyze_store (SLogicalExpression ''||'' (SIdentifier ''x'') (SLiteral (VNum 1)))
           x_called) =
     Inr (Some (Obj 2,
       \<lparr>iname = None, itype = Some (TList [TStr KFunction, TStr KNumber]),
          ivalue = Some (VNum 1)\<rparr>))"
    unfolding analyze_store_def
    by (simp add: l r e m del: visit_store.simps(1,2))
       (simp add: new_object_def seen_def props_def inherit_def no_fields_def numeral_2_eq_2)
  show ?thesis using a c b by (intro conjI)
qed

section \<open>The AST walker\<close>

text \<open>
  The walker of \<^verbatim>\<open>walk.mjs\<close>. A node is its \<^verbatim>\<open>type\<close> together with the visits that
  the descent function selected for it makes, in order: each is a child node and the
  override passed with it (\<^verbatim>\<open>Pattern\<close>, \<^verbatim>\<open>Directive\<close>, \<^verbatim>\<open>FunctionBody\<close> or none). Every
  descent function of the table passes its own state argument on to each child.

  The result of a hook is \<^verbatim>\<open>false\<close>, some other falsy result (a hook without a return
  statement gives \<^verbatim>\<open>undefined\<close>), or a truthy replacement state. The side effects of the
  hooks are explicit: a hook maps a world to a world, and the walk returns the final
  world. The ancestors array, when the caller supplies one, is passed to the hooks with
  the current node pushed. Hooks that call the walker back themselves are not
  modelled. Node types and overrides range over ESTree names, which are disjoint
  from the names every object inherits.
\<close>

datatype wnode = Node (ntype: string) (kids: "(wnode \<times> string option) list")

datatype 's hook_result = RFalse | RFalsy | RTruthy 's

type_synonym ('s, 'w) hook =
  "wnode \<Rightarrow> 's \<Rightarrow> wnode list option \<Rightarrow> 'w \<Rightarrow> 's hook_result \<times> 'w"

record ('s, 'w) visitors =
  beforeVisitor :: "string \<Rightarrow> ('s, 'w) hook option"
  afterVisitor :: "string \<Rightarrow> ('s, 'w) hook option"

definition groups :: "string \<Rightarrow> string list" where
  "groups t =
     (if t \<in> set [''ImportDeclaration'', ''ExportNamedDeclaration'',
                   ''ExportDefaultDeclaration'', ''ExportAllDeclaration'']
      then [''ModuleDeclaration'']
      else if t = ''VariableDeclaration'' then [''Statement'', ''Declaration'']
      else if t = ''FunctionDeclaration'' then [''Declaration'', ''Function'']
      else if t \<in> set [''FunctionExpression'', ''ArrowFunctionExpression'']
      then [''Expression'', ''Function'']
      else if t = ''ClassDeclaration'' then [''Declaration'', ''Class'']
      else if t = ''ClassExpression'' then [''Expression'', ''Class'']
      else if t \<in> set [''EmptyStatement'', ''DebuggerStatement'', ''BreakStatement'',
          ''ContinueStatement'', ''ExpressionStatement'', ''BlockStatement'',
          ''WithStatement'', ''ReturnStatement'', ''LabeledStatement'', ''IfStatement'',
          ''SwitchStatement'', ''ThrowStatement'', ''TryStatement'', ''WhileStatement'',
          ''DoWhileStatement'', ''ForStatement'', ''ForInStatement'', ''ForOfStatement'']
      then [''Statement'']
      else if t \<in> set [''ArrayExpression'', ''ObjectExpression'', ''UnaryExpression'',
          ''UpdateExpression'', ''BinaryExpression'', ''LogicalExpression'',
          ''AssignmentExpression'', ''MemberExpression'', ''ConditionalExpression'',
          ''CallExpression'', ''NewExpression'', ''SequenceExpression'', ''YieldExpression'',
          ''AwaitExpression'', ''Identifier'', ''Literal'', ''ThisExpression'',
          ''MetaProperty'', ''TemplateLiteral'', ''TaggedTemplateExpression'',
          ''ParenthesizedExpression'']
      then [''Expression'']
      else [])"

definition walker_names :: "string list" where
  "walker_names =
     [''Program'', ''FunctionBody'', ''ImportDeclaration'', ''ImportSpecifier'',
      ''ImportDefaultSpecifier'', ''ImportNamespaceSpecifier'', ''ExportNamedDeclaration'',
      ''ExportSpecifier'', ''ExportDefaultDeclaration'', ''ExportAllDeclaration'',
      ''VariableDeclaration'', ''VariableDeclarator'', ''FunctionDeclaration'',
      ''FunctionExpression'', ''ArrowFunctionExpression'', ''ClassDeclaration'',
      ''ClassExpression'', ''ClassBody'', ''MethodDefinition'', ''Property'',
      ''EmptyStatement'', ''DebuggerStatement'', ''BreakStatement'', ''ContinueStatement'',
      ''ExpressionStatement'', ''ParenthesizedExpression'', ''BlockStatement'',
      ''WithStatement'', ''ReturnStatement'', ''YieldExpression'', ''AwaitExpression'',
      ''LabeledStatement'', ''IfStatement'', ''SwitchStatement'', ''SwitchCase'',
      ''ThrowStatement'', ''TryStatement'', ''CatchClause'', ''WhileStatement'',
      ''DoWhileStatement'', ''ForStatement'', ''ForInStatement'', ''ForOfStatement'',
      ''ArrayExpression'', ''ObjectExpression'', ''UnaryExpression'', ''UpdateExpression'',
      ''SpreadElement'', ''BinaryExpression'', ''LogicalExpression'',
      ''AssignmentExpression'', ''AssignmentPattern'', ''MemberExpression'',
      ''ConditionalExpression'', ''CallExpression'', ''NewExpression'',
      ''SequenceExpression'', ''Identifier'', ''Literal'', ''ThisExpression'', ''Super'',
      ''MetaProperty'', ''TemplateLiteral'', ''TemplateElement'',
      ''TaggedTemplateExpression'', ''ArrayPattern'', ''ObjectPattern'',
      ''AssignmentProperty'', ''RestElement'']"

definition truthy_string :: "string option \<Rightarrow> bool" where
  "truthy_string d = (case d of None \<Rightarrow> False | Some s \<Rightarrow> s \<noteq> [])"

definition visitorTypes :: "string \<Rightarrow> string option \<Rightarrow> string list" where
  "visitorTypes t override =
     (if truthy_string override then [the override] else groups t) @ [t]"

definition walker_for :: "string option \<Rightarrow> string \<Rightarrow> string option" where
  "walker_for override t =
     (if truthy_string override \<and> the override \<in> set walker_names then override
      else if t \<in> set walker_names then Some t
      else None)"

definition unhandled :: "string \<Rightarrow> string" where
  "unhandled t = ''Unhandled AST node type '' @ CHR 0x27 # t @ [CHR 0x27]"

fun run_before ::
  "('s, 'w) visitors \<Rightarrow> string list \<Rightarrow> wnode \<Rightarrow> 's hook_result \<Rightarrow> 's \<Rightarrow>
   wnode list option \<Rightarrow> 'w \<Rightarrow> 's hook_result \<times> 's \<times> 'w" where
  "run_before vs [] n beforeResult st anc w = (beforeResult, st, w)"
| "run_before vs (vtype # vtypes) n beforeResult st anc w =
     (case beforeVisitor vs vtype of
        None \<Rightarrow> run_before vs vtypes n beforeResult st anc w
      | Some h \<Rightarrow>
          (case h n st anc w of
             (RFalse, w') \<Rightarrow> (RFalse, st, w')
           | (RFalsy, w') \<Rightarrow> run_before vs vtypes n RFalsy st anc w'
           | (RTruthy st', w') \<Rightarrow> run_before vs vtypes n (RTruthy st') st' anc w'))"

fun run_after ::
  "('s, 'w) visitors \<Rightarrow> string list \<Rightarrow> wnode \<Rightarrow> 's \<Rightarrow> wnode list option \<Rightarrow> 'w \<Rightarrow> 's \<times> 'w" where
  "run_after vs [] n st anc w = (st, w)"
| "run_after vs (vtype # vtypes) n st anc w =
     (case afterVisitor vs vtype of
        None \<Rightarrow> run_after vs vtypes n st anc w
      | Some h \<Rightarrow>
          (case h n st anc w of
             (RTruthy st', w') \<Rightarrow> run_after vs vtypes n st' anc w'
           | (_, w') \<Rightarrow> run_after vs vtypes n st anc w'))"

definition push :: "wnode list option \<Rightarrow> wnode \<Rightarrow> wnode list option" where
  "push ancestors n = map_option (\<lambda>a. a @ [n]) ancestors"

fun visit_node ::
  "('s, 'w) visitors \<Rightarrow> wnode \<Rightarrow> 's \<Rightarrow> string option \<Rightarrow> wnode list option \<Rightarrow> 'w \<Rightarrow> error + 'w"
and visit_kids ::
  "('s, 'w) visitors \<Rightarrow> (wnode \<times> string option) list \<Rightarrow> 's \<Rightarrow> wnode list option \<Rightarrow> 'w \<Rightarrow>
   error + 'w" where
  "visit_node vs (Node t ks) st override ancestors w =
     (case run_before vs (visitorTypes t override) (Node t ks) RFalsy st
             (push ancestors (Node t ks)) w of
        (RFalse, st1, w1) \<Rightarrow> Inr w1
      | (beforeResult, st1, w1) \<Rightarrow>
          (case walker_for override t of
             None \<Rightarrow> Inl (Error (unhandled t))
           | Some walker \<Rightarrow>
               (case visit_kids vs ks st1 (push ancestors (Node t ks)) w1 of
                  Inl e \<Rightarrow> Inl e
                | Inr w2 \<Rightarrow>
                    Inr (snd (run_after vs (rev (visitorTypes t override)) (Node t ks) st1
                               (push ancestors (Node t ks)) w2)))))"
| "visit_kids vs [] st ancestors w = Inr w"
| "visit_kids vs ((child, override) # ks) st ancestors w =
     (case visit_node vs child st override ancestors w of
        Inl e \<Rightarrow> Inl e
      | Inr w' \<Rightarrow> visit_kids vs ks st ancestors w')"

definition walk :: "wnode \<Rightarrow> 's \<Rightarrow> wnode list option \<Rightarrow> ('s, 'w) visitors \<Rightarrow> 'w \<Rightarrow> error + 'w" where
  "walk ast st ancestors vs w = visit_node vs ast st None ancestors w"

text \<open>
  What a visit does once its entry hooks are through and none returned \<^verbatim>\<open>false\<close>: the
  descent function is looked up, the children are visited with the state \<open>st\<close>, and
  the exit hooks run from the most specific dispatch key to the least specific one,
  first with \<open>st\<close>.
\<close>

fun descend ::
  "('s, 'w) visitors \<Rightarrow> wnode \<Rightarrow> 's \<Rightarrow> string option \<Rightarrow> wnode list option \<Rightarrow> 'w \<Rightarrow> error + 'w"
  where
  "descend vs (Node t ks) st override ancestors w =
     (case walker_for override t of
        None \<Rightarrow> Inl (Error (unhandled t))
      | Some walker \<Rightarrow>
          (case visit_kids vs ks st (push ancestors (Node t ks)) w of
             Inl e \<Rightarrow> Inl e
           | Inr w2 \<Rightarrow>
               Inr (snd (run_after vs (rev (visitorTypes t override)) (Node t ks) st
                          (push ancestors (Node t ks)) w2))))"

text \<open>
  An example: an expression statement holding one identifier, walked with hooks that
  append their name and the state they receive to a log. The entry hook registered
  for statements returns a given result.
\<close>

definition log_hook :: "string \<Rightarrow> string hook_result \<Rightarrow> (string, string list) hook" where
  "log_hook name r n st anc w = (r, w @ [name @ '':'' @ st])"

definition log_visitors :: "string hook_result \<Rightarrow> (string, string list) visitors" where
  "log_visitors r =
     \<lparr>beforeVisitor = (\<lambda>v. if v = ''Statement'' then Some (log_hook ''StatementBefore'' r)
                            else None),
      afterVisitor = (\<lambda>v. if v = ''Identifier'' \<or> v = ''Statement''
                           then Some (log_hook v RFalsy) else None)\<rparr>"

definition log_visitors2 ::
  "string hook_result \<Rightarrow> string hook_result \<Rightarrow> (string, string list) visitors" where
  "log_visitors2 r r2 =
     \<lparr>beforeVisitor = (\<lambda>v. if v = ''Statement'' then Some (log_hook ''StatementBefore'' r)
                            else if v = ''ExpressionStatement''
                            then Some (log_hook ''ExpressionStatementBefore'' r2)
                            else None),
      afterVisitor = (\<lambda>v. if v = ''Identifier'' \<or> v = ''Statement''
                           then Some (log_hook v RFalsy) else None)\<rparr>"

definition statement_x :: wnode where
  "statement_x = Node ''ExpressionStatement'' [(Node ''Identifier'' [], None)]"

subsection \<open>Entry hooks\<close>

lemma run_before_append:
  "b \<noteq> RFalse \<Longrightarrow>
   run_before vs (xs @ ys) n b st anc w =
     (case run_before vs xs n b st anc w of
        (RFalse, st', w') \<Rightarrow> (RFalse, st', w')
      | (RFalsy, st', w') \<Rightarrow> run_before vs ys n RFalsy st' anc w'
      | (RTruthy s, st', w') \<Rightarrow> run_before vs ys n (RTruthy s) st' anc w')"
proof (induction xs arbitrary: b st w)
  case Nil
  then show ?case by (cases b) simp_all
next
  case (Cons x xs)
  show ?case
  proof (cases "beforeVisitor vs x")
    case None
    then show ?thesis using Cons by simp
  next
    case (Some h)
    obtain r w' where hr: "h n st anc w = (r, w')" by (cases "h n st anc w")
    show ?thesis
    proof (cases r)
      case RFalse
      then show ?thesis using Some hr by simp
    next
      case RFalsy
      then show ?thesis using Some hr Cons.IH[of RFalsy st w'] by simp
    next
      case (RTruthy s)
      then show ?thesis using Some hr Cons.IH[of "RTruthy s" s w'] by simp
    qed
  qed
qed

lemma run_before_no_hooks:
  "\<forall>x \<in> set xs. beforeVisitor vs x = None \<Longrightarrow> run_before vs xs n b st anc w = (b, st, w)"
  by (induction xs) simp_all

lemma visitorTypes_ExpressionStatement:
  "visitorTypes ''ExpressionStatement'' None = [] @ ''Statement'' # [''ExpressionStatement'']"
  by (simp add: visitorTypes_def truthy_string_def groups_def)

lemma visitorTypes_Identifier:
  "visitorTypes ''Identifier'' None = [''Expression'', ''Identifier'']"
  by (simp add: visitorTypes_def truthy_string_def groups_def)

lemma walker_for_ExpressionStatement:
  "walker_for None ''ExpressionStatement'' = Some ''ExpressionStatement''"
  by (simp add: walker_for_def truthy_string_def walker_names_def)

lemma walker_for_Identifier: "walker_for None ''Identifier'' = Some ''Identifier''"
  by (simp add: walker_for_def truthy_string_def walker_names_def)

lemma visit_Identifier_log:
  "visit_node (log_visitors r) (Node ''Identifier'' []) st None None w =
     Inr (w @ [''Identifier:'' @ st])"
  by (simp add: visitorTypes_Identifier walker_for_Identifier log_visitors_def log_hook_def
      push_def)

lemma visit_Identifier_log2:
  "visit_node (log_visitors2 r r2) (Node ''Identifier'' []) st None None w =
     Inr (w @ [''Identifier:'' @ st])"
  by (simp add: visitorTypes_Identifier walker_for_Identifier log_visitors2_def log_hook_def
      push_def)

lemma visit_node_descend:
  "visit_node vs (Node t ks) st override ancestors w =
     (case run_before vs (visitorTypes t override) (Node t ks) RFalsy st
             (push ancestors (Node t ks)) w of
        (RFalse, st1, w1) \<Rightarrow> Inr w1
      | (RFalsy, st1, w1) \<Rightarrow> descend vs (Node t ks) st1 override ancestors w1
      | (RTruthy s, st1, w1) \<Rightarrow> descend vs (Node t ks) st1 override ancestors w1)"
  by (simp split: prod.splits hook_result.splits)

text \<open>
  C9, amended. Take the visit of a node and an entry hook \<open>h\<close> registered for one of
  its dispatch keys, reached with state \<open>st0\<close> (no earlier entry hook of the visit
  returned \<^verbatim>\<open>false\<close>).
  \<^item> If \<open>h\<close> returns \<^verbatim>\<open>false\<close>, the visit ends there: the result is the world as \<open>h\<close> left
    it, so no later entry hook, no hook of the subtree and no exit hook has acted.
  \<^item> If \<open>h\<close> returns a truthy replacement state, that state is passed to the more
    specific entry hooks that follow; if \<open>h\<close> returns any other falsy result, they are
    passed \<open>st0\<close> unchanged. Unless one of them returns \<^verbatim>\<open>false\<close>, which again ends the
    visit, the walker then descends and runs the exit hooks with the state these
    entry hooks leave.
  \<^item> When no more specific entry hook is registered after \<open>h\<close>, the descent and the
    exit hooks run with the replacement state if the result of \<open>h\<close> is truthy, and
    with \<open>st0\<close> if it is falsy but not \<^verbatim>\<open>false\<close>.
\<close>

theorem entry_hook_protocol:
  assumes vts: "visitorTypes t override = pre @ vtype # post"
    and pre: "run_before vs pre (Node t ks) RFalsy st (push ancestors (Node t ks)) w = (b0, st0, w0)"
    and b0: "b0 \<noteq> RFalse"
    and h: "beforeVisitor vs vtype = Some h"
  shows
    "visit_node vs (Node t ks) st override ancestors w =
       (case h (Node t ks) st0 (push ancestors (Node t ks)) w0 of
          (RFalse, w1) \<Rightarrow> Inr w1
        | (RFalsy, w1) \<Rightarrow>
            (case run_before vs post (Node t ks) RFalsy st0 (push ancestors (Node t ks)) w1 of
               (RFalse, st2, w2) \<Rightarrow> Inr w2
             | (RFalsy, st2, w2) \<Rightarrow> descend vs (Node t ks) st2 override ancestors w2
             | (RTruthy s, st2, w2) \<Rightarrow> descend vs (Node t ks) st2 override ancestors w2)
        | (RTruthy st1, w1) \<Rightarrow>
            (case run_before vs post (Node t ks) (RTruthy st1) st1
                    (push ancestors (Node t ks)) w1 of
               (RFalse, st2, w2) \<Rightarrow> Inr w2
             | (RFalsy, st2, w2) \<Rightarrow> descend vs (Node t ks) st2 override ancestors w2
             | (RTruthy s, st2, w2) \<Rightarrow> descend vs (Node t ks) st2 override ancestors w2)) \<and>
     ((\<forall>x \<in> set post. beforeVisitor vs x = None) \<longrightarrow>
        visit_node vs (Node t ks) st override ancestors w =
          (case h (Node t ks) st0 (push ancestors (Node t ks)) w0 of
             (RFalse, w1) \<Rightarrow> Inr w1
           | (RFalsy, w1) \<Rightarrow> descend vs (Node t ks) st0 override ancestors w1
           | (RTruthy st1, w1) \<Rightarrow> descend vs (Node t ks) st1 override ancestors w1))"
proof -
  let ?n = "Node t ks"
  let ?a = "push ancestors ?n"
  have split: "run_before vs (visitorTypes t override) ?n RFalsy st ?a w =
      (case b0 of
         RFalse \<Rightarrow> (RFalse, st0, w0)
       | RFalsy \<Rightarrow> run_before vs (vtype # post) ?n RFalsy st0 ?a w0
       | RTruthy s \<Rightarrow> run_before vs (vtype # post) ?n (RTruthy s) st0 ?a w0)"
    using run_before_append[of RFalsy vs pre "vtype # post" ?n st ?a w] pre
    by (cases b0) (simp_all add: vts)
  have step: "run_before vs (visitorTypes t override) ?n RFalsy st ?a w =
      (case h ?n st0 ?a w0 of
         (RFalse, w') \<Rightarrow> (RFalse, st0, w')
       | (RFalsy, w') \<Rightarrow> run_before vs post ?n RFalsy st0 ?a w'
       | (RTruthy st', w') \<Rightarrow> run_before vs post ?n (RTruthy st') st' ?a w')"
    using split b0 h by (cases b0) simp_all
  obtain r w1 where hr: "h ?n st0 ?a w0 = (r, w1)" by (cases "h ?n st0 ?a w0")
  have general: "visit_node vs ?n st override ancestors w =
       (case h ?n st0 ?a w0 of
          (RFalse, w1) \<Rightarrow> Inr w1
        | (RFalsy, w1) \<Rightarrow>
            (case run_before vs post ?n RFalsy st0 ?a w1 of
               (RFalse, st2, w2) \<Rightarrow> Inr w2
             | (RFalsy, st2, w2) \<Rightarrow> descend vs ?n st2 override ancestors w2
             | (RTruthy s, st2, w2) \<Rightarrow> descend vs ?n st2 override ancestors w2)
        | (RTruthy st1, w1) \<Rightarrow>
            (case run_before vs post ?n (RTruthy st1) st1 ?a w1 of
               (RFalse, st2, w2) \<Rightarrow> Inr w2
             | (RFalsy, st2, w2) \<Rightarrow> descend vs ?n st2 override ancestors w2
             | (RTruthy s, st2, w2) \<Rightarrow> descend vs ?n st2 override ancestors w2))"
    unfolding visit_node_descend step hr by (cases r) simp_all
  have special: "visit_node vs ?n st override ancestors w =
          (case h ?n st0 ?a w0 of
             (RFalse, w1) \<Rightarrow> Inr w1
           | (RFalsy, w1) \<Rightarrow> descend vs ?n st0 override ancestors w1
           | (RTruthy st1, w1) \<Rightarrow> descend vs ?n st1 override ancestors w1)"
    if none: "\<forall>x \<in> set post. beforeVisitor vs x = None"
    unfolding general hr by (cases r) (simp_all add: run_before_no_hooks[OF none])
  show ?thesis using general special by blast
qed

theorem entry_hook_protocol_witness:
  "walk statement_x ''s0'' None (log_visitors2 RFalse RFalsy) [] =
     Inr [''StatementBefore:s0''] \<and>
   walk statement_x ''s0'' None (log_visitors2 (RTruthy ''s1'') RFalsy) [] =
     Inr [''StatementBefore:s0'', ''ExpressionStatementBefore:s1'', ''Identifier:s1'',
          ''Statement:s1''] \<and>
   walk statement_x ''s0'' None (log_visitors2 (RTruthy ''s1'') RFalse) [] =
     Inr [''StatementBefore:s0'', ''ExpressionStatementBefore:s1''] \<and>
   walk statement_x ''s0'' None (log_visitors (RTruthy ''s1'')) [] =
     Inr [''StatementBefore:s0'', ''Identifier:s1'', ''Statement:s1'']"
proof -
  let ?n = "Node ''ExpressionStatement'' [(Node ''Identifier'' [], None)]"
  let ?a = "push None ?n"
  have pre: "run_before vs [] ?n RFalsy ''s0'' ?a [] = (RFalsy, ''s0'', [])"
    for vs :: "(string, string list) visitors"
    by simp
  have b0: "RFalsy \<noteq> (RFalse :: string hook_result)" by simp
  have h2: "beforeVisitor (log_visitors2 r r2) ''Statement'' =
      Some (log_hook ''StatementBefore'' r)" for r r2
    by (simp add: log_visitors2_def)
  have h1: "beforeVisitor (log_visitors r) ''Statement'' = Some (log_hook ''StatementBefore'' r)"
    for r
    by (simp add: log_visitors_def)
  have post1: "\<forall>x \<in> set [''ExpressionStatement'']. beforeVisitor (log_visitors r) x = None"
    for r
    by (simp add: log_visitors_def)
  have hr: "log_hook ''StatementBefore'' r ?n ''s0'' ?a [] = (r, [''StatementBefore:s0''])" for r
    by (simp add: log_hook_def)
  have post2: "run_before (log_visitors2 r RFalsy) [''ExpressionStatement''] ?n b ''s1'' ?a
      [''StatementBefore:s0''] =
      (RFalsy, ''s1'', [''StatementBefore:s0'', ''ExpressionStatementBefore:s1''])" for r b
    by (simp add: log_visitors2_def log_hook_def)
  have post3: "run_before (log_visitors2 r RFalse) [''ExpressionStatement''] ?n b ''s1'' ?a
      [''StatementBefore:s0''] =
      (RFalse, ''s1'', [''StatementBefore:s0'', ''ExpressionStatementBefore:s1''])" for r b
    by (simp add: log_visitors2_def log_hook_def)
  have aft2: "run_after (log_visitors2 r r2) (rev (visitorTypes ''ExpressionStatement'' None)) ?n st
      ?a w = (st, w @ [''Statement:'' @ st])" for r r2 st w
    by (simp add: visitorTypes_ExpressionStatement log_visitors2_def log_hook_def)
  have aft1: "run_after (log_visitors r) (rev (visitorTypes ''ExpressionStatement'' None)) ?n st
      ?a w = (st, w @ [''Statement:'' @ st])" for r st w
    by (simp add: visitorTypes_ExpressionStatement log_visitors_def log_hook_def)
  have kids2: "visit_kids (log_visitors2 r r2) [(Node ''Identifier'' [], None)] st ?a w =
      Inr (w @ [''Identifier:'' @ st])" for r r2 st w
    using visit_Identifier_log2[of r r2 st w] by (simp add: push_def)
  have kids1: "visit_kids (log_visitors r) [(Node ''Identifier'' [], None)] st ?a w =
      Inr (w @ [''Identifier:'' @ st])" for r st w
    using visit_Identifier_log[of r st w] by (simp add: push_def)
  have d2: "descend (log_visitors2 r r2) ?n st None None w =
      Inr (w @ [''Identifier:'' @ st, ''Statement:'' @ st])" for r r2 st w
    by (simp add: walker_for_ExpressionStatement kids2 aft2 del: visit_kids.simps)
  have d1: "descend (log_visitors r) ?n st None None w =
      Inr (w @ [''Identifier:'' @ st, ''Statement:'' @ st])" for r st w
    by (simp add: walker_for_ExpressionStatement kids1 aft1 del: visit_kids.simps)
  note P = entry_hook_protocol[OF visitorTypes_ExpressionStatement pre b0]
  have a: "visit_node (log_visitors2 RFalse RFalsy) ?n ''s0'' None None [] =
      Inr [''StatementBefore:s0'']"
    using P[OF h2, of RFalse RFalsy, THEN conjunct1]
    by (simp add: hr del: visit_node.simps run_before.simps descend.simps)
  have b: "visit_node (log_visitors2 (RTruthy ''s1'') RFalsy) ?n ''s0'' None None [] =
      Inr [''StatementBefore:s0'', ''ExpressionStatementBefore:s1'', ''Identifier:s1'',
           ''Statement:s1'']"
    using P[OF h2, of "RTruthy ''s1''" RFalsy, THEN conjunct1]
    by (simp add: hr post2 d2 del: visit_node.simps run_before.simps descend.simps)
  have c: "visit_node (log_visitors2 (RTruthy ''s1'') RFalse) ?n ''s0'' None None [] =
      Inr [''StatementBefore:s0'', ''ExpressionStatementBefore:s1'']"
    using P[OF h2, of "RTruthy ''s1''" RFalse, THEN conjunct1]
    by (simp add: hr post3 del: visit_node.simps run_before.simps descend.simps)
  have d: "visit_node (log_visitors (RTruthy ''s1'')) ?n ''s0'' None None [] =
      Inr [''StatementBefore:s0'', ''Identifier:s1'', ''Statement:s1'']"
    using P[OF h1, of "RTruthy ''s1''", THEN conjunct2] post1[of "RTruthy ''s1''"]
    by (simp add: hr d1 del: visit_node.simps run_before.simps descend.simps)
  show ?thesis using a b c d by (simp only: walk_def statement_x_def simp_thms)
qed

text \<open>
  C9 as stated fails for a falsy result other than \<^verbatim>\<open>false\<close>: the entry hook for
  statements returns \<^verbatim>\<open>undefined\<close>, and the exit hooks of the identifier below and of
  the statement itself still run.
\<close>

theorem falsy_entry_result_does_not_skip:
  "walk statement_x ''s0'' None (log_visitors RFalsy) [] =
     Inr [''StatementBefore:s0'', ''Identifier:s0'', ''Statement:s0'']"
proof -
  let ?n = "Node ''ExpressionStatement'' [(Node ''Identifier'' [], None)]"
  let ?vs = "log_visitors RFalsy"
  have bef: "run_before ?vs (visitorTypes ''ExpressionStatement'' None) ?n RFalsy ''s0''
      (push None ?n) [] = (RFalsy, ''s0'', [''StatementBefore:s0''])"
    by (simp add: visitorTypes_ExpressionStatement log_visitors_def log_hook_def)
  have kids: "visit_kids ?vs [(Node ''Identifier'' [], None)] ''s0'' (push None ?n)
      [''StatementBefore:s0''] = Inr [''StatementBefore:s0'', ''Identifier:s0'']"
    using visit_Identifier_log[of RFalsy "''s0''" "[''StatementBefore:s0'']"]
    by (simp add: push_def)
  have aft: "run_after ?vs (rev (visitorTypes ''ExpressionStatement'' None)) ?n ''s0''
      (push None ?n) [''StatementBefore:s0'', ''Identifier:s0''] =
      Pair ''s0'' [''StatementBefore:s0'', ''Identifier:s0'', ''Statement:s0'']"
    by (simp add: visitorTypes_ExpressionStatement log_visitors_def log_hook_def)
  have "visit_node ?vs ?n ''s0'' None None [] =
      Inr [''StatementBefore:s0'', ''Identifier:s0'', ''Statement:s0'']"
    by (subst visit_node.simps)
      (simp only: bef kids aft walker_for_ExpressionStatement prod.case hook_result.case
        option.case sum.case snd_conv)
  then show ?thesis by (simp only: walk_def statement_x_def)
qed

end
